theory Spec2Isabelle
  imports Main "HOL-Library.FSet" "HOL-Library.Finite_Map"
begin

section \<open>Protocol types (src/types/index.ts)\<close>

text \<open>
  The enums of the wire protocol. The optional sub-status of a phase message is the
  string union \<^verbatim>\<open>"RUNNING" | "COMPLETED" | "FAILED"\<close>; its values are prefixed here
  because two of them share their spelling with migration statuses.
\<close>

datatype phase = ANNOUNCE | EXECUTE | APPLY | CONFIRM | ROLLBACK

datatype migration_status = PENDING | ANNOUNCING | EXECUTING | APPLYING | COMPLETED | FAILED

datatype sub_status = SubRUNNING | SubCOMPLETED | SubFAILED

text \<open>Dates are milliseconds on the coordinator's clock.\<close>

record phase_message =
  pm_phase :: phase
  pm_migrationId :: string
  pm_status :: "sub_status option"
  pm_timestamp :: nat

record migration =
  mig_id :: string
  mig_name :: string
  mig_sql :: "string list"
  mig_status :: migration_status
  completedAt :: "nat option"
  startedAt :: nat

datatype ack_status = ACKNOWLEDGED | ERROR

record ack_message =
  ack_phase :: phase
  ack_status :: ack_status
  ack_appId :: string
  ack_error :: "string option"

section \<open>The migration executor (src/coordinator/migration-executor.ts)\<close>

text \<open>
  The executor talks to PostgreSQL through a pooled client. The database is not part of
  the repository, so it is a parameter: \<open>db_behaviour\<close> says whether
  \<^verbatim>\<open>pool.connect()\<close> rejects, for every query whether
  \<^verbatim>\<open>client.query\<close> rejects, given the queries the connection has already
  received, and what the database reads a query string as: one of its transaction
  commands, in whatever spelling it accepts, or a plain statement. The record
  \<open>database\<close> is what the executor's calls leave behind: how often the executor
  was entered, how many clients were handed out and released, the queries in the order
  they were sent, and a transactional store of the statements that took effect.
\<close>

datatype command = Begin | Commit | Rollback | Statement

record db_behaviour =
  connect_error :: "string option"
  query_error :: "string list \<Rightarrow> string \<Rightarrow> string option"
  command_of :: "string \<Rightarrow> command"

record database =
  invocations :: "string list list"
  acquired :: nat
  released :: nat
  queries :: "string list"
  committed :: "string list"
  pending :: "string list option"

text \<open>
  Modelled from the spec: the database boundary of section 6, a transactional interface
  with BEGIN / statement / COMMIT / ROLLBACK. What an accepted query does depends on what
  the database reads it as: a plain statement joins the open transaction (or takes
  effect at once when none is open), a commit makes the open transaction durable, a
  rollback discards it, a begin opens a transaction when none is open.
\<close>

definition db_apply :: "db_behaviour \<Rightarrow> string \<Rightarrow> database \<Rightarrow> database" where
  "db_apply beh q db =
     (case command_of beh q of
        Begin \<Rightarrow>
          (case pending db of None \<Rightarrow> db\<lparr>pending := Some []\<rparr> | Some _ \<Rightarrow> db)
      | Commit \<Rightarrow>
          (case pending db of None \<Rightarrow> db
           | Some p \<Rightarrow> db\<lparr>committed := committed db @ p, pending := None\<rparr>)
      | Rollback \<Rightarrow> db\<lparr>pending := None\<rparr>
      | Statement \<Rightarrow>
          (case pending db of None \<Rightarrow> db\<lparr>committed := committed db @ [q]\<rparr>
           | Some p \<Rightarrow> db\<lparr>pending := Some (p @ [q])\<rparr>))"

text \<open>\<^verbatim>\<open>await client.query(q)\<close>: \<open>Some e\<close> is the error it rejects with.\<close>

definition client_query :: "db_behaviour \<Rightarrow> string \<Rightarrow> database \<Rightarrow> string option \<times> database" where
  "client_query beh q db =
     (let db' = db\<lparr>queries := queries db @ [q]\<rparr> in
      case query_error beh (queries db) q of
        Some e \<Rightarrow> (Some e, db')
      | None \<Rightarrow> (None, db_apply beh q db'))"

text \<open>The \<^verbatim>\<open>for (const query of sql)\<close> loop: it stops at the first rejected query.\<close>

fun run_statements :: "db_behaviour \<Rightarrow> string list \<Rightarrow> database \<Rightarrow> string option \<times> database" where
  "run_statements beh [] db = (None, db)"
| "run_statements beh (query # rest) db =
     (case client_query beh query db of
        (Some e, db') \<Rightarrow> (Some e, db')
      | (None, db') \<Rightarrow> run_statements beh rest db')"

text \<open>The body of the \<^verbatim>\<open>try\<close> block up to and including COMMIT.\<close>

definition transaction_body :: "db_behaviour \<Rightarrow> string list \<Rightarrow> database \<Rightarrow> string option \<times> database" where
  "transaction_body beh sql db =
     (case client_query beh ''BEGIN'' db of
        (Some e, db1) \<Rightarrow> (Some e, db1)
      | (None, db1) \<Rightarrow>
          (case run_statements beh sql db1 of
             (Some e, db2) \<Rightarrow> (Some e, db2)
           | (None, db2) \<Rightarrow> client_query beh ''COMMIT'' db2))"

record exec_result =
  success :: bool
  error :: "string option"

definition client_release :: "database \<Rightarrow> database" where
  "client_release db = db\<lparr>released := released db + 1\<rparr>"

text \<open>
  \<^verbatim>\<open>executeMigrations(sql)\<close>. \<open>Inl e\<close> is a rejected promise: either
  \<^verbatim>\<open>pool.connect()\<close> failed (before the \<^verbatim>\<open>try\<close>, no client held) or the
  ROLLBACK inside \<^verbatim>\<open>catch\<close> was itself rejected. The \<^verbatim>\<open>finally\<close>
  clause runs on every path that entered the \<^verbatim>\<open>try\<close>.
\<close>

definition executeMigrations :: "db_behaviour \<Rightarrow> string list \<Rightarrow> database \<Rightarrow> (string + exec_result) \<times> database" where
  "executeMigrations beh sql db =
     (let db0 = db\<lparr>invocations := invocations db @ [sql]\<rparr> in
      case connect_error beh of
        Some e \<Rightarrow> (Inl e, db0)
      | None \<Rightarrow>
          (let client = db0\<lparr>acquired := acquired db0 + 1\<rparr> in
           case transaction_body beh sql client of
             (None, db1) \<Rightarrow> (Inr \<lparr>success = True, error = None\<rparr>, client_release db1)
           | (Some e, db1) \<Rightarrow>
               (case client_query beh ''ROLLBACK'' db1 of
                  (Some e', db2) \<Rightarrow> (Inl e', client_release db2)
                | (None, db2) \<Rightarrow> (Inr \<lparr>success = False, error = Some e\<rparr>, client_release db2))))"

section \<open>The coordinator (src/coordinator/server.ts)\<close>

datatype ready_state = CONNECTING | OPEN | CLOSING | CLOSED

datatype wire = WELCOME string | PHASE phase_message

text \<open>A WebSocket as the coordinator sees it: its ready state and what was sent on it.\<close>

record websocket =
  readyState :: ready_state
  sent :: "wire list"

text \<open>
  What a promise is rejected with, or what a statement throws: the TypeError of
  dereferencing a null \<^verbatim>\<open>currentMigration\<close>, the timeout string
  \<^verbatim>\<open>Timeout: Only k/n apps acknowledged P\<close>, or an error passed on from the
  database. The reason handed to \<^verbatim>\<open>rollback\<close> is either the string
  \<^verbatim>\<open>Migration execution failed: ...\<close> or whatever the \<^verbatim>\<open>catch\<close> caught.
\<close>

datatype thrown = TypeError | Timeout nat nat phase | DbError string

datatype reason = ExecutionFailed "string option" | Caught thrown

text \<open>
  Of the console output, the two lines that record a decision are kept:
  \<^verbatim>\<open>broadcasting P (S)\<close> of \<^verbatim>\<open>sendPhase\<close> and \<^verbatim>\<open>rolling back R\<close>
  of \<^verbatim>\<open>rollback\<close>.
\<close>

datatype log_line = Broadcasting phase "sub_status option" | RollingBack reason

text \<open>
  The fields of \<^verbatim>\<open>CoordinatorServer\<close>. \<^verbatim>\<open>apps\<close> is a
  \<^verbatim>\<open>Map<string, WebSocket>\<close>, \<^verbatim>\<open>acknowledgments\<close> a
  \<^verbatim>\<open>Map<Phase, Set<string>>\<close>: its key is the phase alone. \<open>executor\<close> holds
  the database the executor's pool is connected to, \<open>now\<close> is the clock that
  \<^verbatim>\<open>new Date()\<close> reads; it advances with the timers of a wait, and no time is
  counted for anything else. \<^verbatim>\<open>phaseTimeout\<close> is never used after the
  constructor and is left out, as is the socket server.
\<close>

record coordinator =
  apps :: "(string, websocket) fmap"
  currentMigration :: "migration option"
  acknowledgments :: "phase \<Rightarrow> string fset option"
  executor :: database
  now :: nat
  console :: "log_line list"

definition handleConnection :: "string \<Rightarrow> coordinator \<Rightarrow> coordinator" where
  "handleConnection appId st =
     st\<lparr>apps := fmupd appId \<lparr>readyState = OPEN, sent = [WELCOME appId]\<rparr> (apps st)\<rparr>"

text \<open>
  The status and the \<^verbatim>\<open>appId\<close> field of the message are never read: the
  identifier is the one the connection was given. The comparison of the set's size with
  \<^verbatim>\<open>apps.size\<close> that ends the handler only writes a console line.
\<close>

definition handleAcknowledgment :: "string \<Rightarrow> ack_message \<Rightarrow> coordinator \<Rightarrow> coordinator" where
  "handleAcknowledgment appId message st =
     (let acks = (case acknowledgments st (ack_phase message) of
                    None \<Rightarrow> (acknowledgments st)(ack_phase message \<mapsto> {||})
                  | Some _ \<Rightarrow> acknowledgments st);
          acks' = (case acks (ack_phase message) of
                     None \<Rightarrow> acks
                   | Some s \<Rightarrow> acks(ack_phase message \<mapsto> finsert appId s))
      in st\<lparr>acknowledgments := acks'\<rparr>)"

text \<open>The \<^verbatim>\<open>close\<close> handler of a connection.\<close>

definition handleClose :: "string \<Rightarrow> coordinator \<Rightarrow> coordinator" where
  "handleClose appId st = st\<lparr>apps := fmdrop appId (apps st)\<rparr>"

text \<open>
  What the event loop can deliver while the coordinator is suspended in an
  \<^verbatim>\<open>await\<close>: a new connection (with the identifier \<^verbatim>\<open>uuidv4()\<close> returns),
  a message on a connection, the close of a connection, and a change of a socket's ready
  state that the transport makes before the close event is delivered.
\<close>

datatype event =
  Connection string
| Message string ack_message
| Close string
| ReadyState string ready_state

fun handleEvent :: "event \<Rightarrow> coordinator \<Rightarrow> coordinator" where
  "handleEvent (Connection appId) st = handleConnection appId st"
| "handleEvent (Message appId message) st = handleAcknowledgment appId message st"
| "handleEvent (Close appId) st = handleClose appId st"
| "handleEvent (ReadyState appId rs) st =
     st\<lparr>apps := (case fmlookup (apps st) appId of
                    None \<Rightarrow> apps st
                  | Some ws \<Rightarrow> fmupd appId (ws\<lparr>readyState := rs\<rparr>) (apps st))\<rparr>"

definition handleEvents :: "event list \<Rightarrow> coordinator \<Rightarrow> coordinator" where
  "handleEvents evs st = fold handleEvent evs st"

definition broadcast :: "wire \<Rightarrow> coordinator \<Rightarrow> coordinator" where
  "broadcast message st =
     st\<lparr>apps := fmmap (\<lambda>ws. if readyState ws = OPEN then ws\<lparr>sent := sent ws @ [message]\<rparr> else ws)
                  (apps st)\<rparr>"

definition sendPhase :: "phase \<Rightarrow> sub_status option \<Rightarrow> coordinator \<Rightarrow> (thrown + unit) \<times> coordinator" where
  "sendPhase phase status st =
     (case currentMigration st of
        None \<Rightarrow> (Inl TypeError, st)
      | Some m \<Rightarrow>
          (Inr (),
           broadcast
             (PHASE \<lparr>pm_phase = phase, pm_migrationId = mig_id m, pm_status = status,
                     pm_timestamp = now st\<rparr>)
             (st\<lparr>console := console st @ [Broadcasting phase status]\<rparr>)))"

text \<open>
  \<^verbatim>\<open>this.acknowledgments.get(phase)?.size === this.apps.size\<close>, the test of the
  poll, and \<^verbatim>\<open>this.acknowledgments.get(phase)?.size || 0\<close>, the count in the
  timeout message. Both read \<^verbatim>\<open>apps\<close> and the set as they are when evaluated.
\<close>

definition quorum :: "phase \<Rightarrow> coordinator \<Rightarrow> bool" where
  "quorum phase st =
     (case acknowledgments st phase of
        None \<Rightarrow> False
      | Some s \<Rightarrow> fcard s = fcard (fmdom (apps st)))"

definition ackCount :: "phase \<Rightarrow> coordinator \<Rightarrow> nat" where
  "ackCount phase st = (case acknowledgments st phase of None \<Rightarrow> 0 | Some s \<Rightarrow> fcard s)"

definition elapse :: "nat \<Rightarrow> coordinator \<Rightarrow> coordinator" where
  "elapse ms st = st\<lparr>now := now st + ms\<rparr>"

text \<open>
  The two timers of \<^verbatim>\<open>waitForAcknowledgments\<close>. \<open>remaining\<close> is the time left
  until the timeout fires; \<open>slots\<close> lists, for each 100 ms interval in turn, the events
  the event loop delivers in it (none once the list is used up). After an interval's
  events the poll runs. A poll due at the instant of the timeout loses to it: the
  timeout was registered first.
\<close>

fun pollLoop :: "phase \<Rightarrow> nat \<Rightarrow> event list list \<Rightarrow> coordinator \<Rightarrow> (thrown + unit) \<times> coordinator" where
  "pollLoop phase remaining slots st =
     (let st1 = handleEvents (case slots of [] \<Rightarrow> [] | evs # _ \<Rightarrow> evs) st in
      if remaining \<le> 100 then
        (let st2 = elapse remaining st1 in
         (Inl (Timeout (ackCount phase st2) (fcard (fmdom (apps st2))) phase), st2))
      else
        (let st2 = elapse 100 st1 in
         if quorum phase st2 then (Inr (), st2)
         else pollLoop phase (remaining - 100) (tl slots) st2))"

declare pollLoop.simps [simp del]

definition waitForAcknowledgments :: "phase \<Rightarrow> nat \<Rightarrow> event list list \<Rightarrow> coordinator \<Rightarrow> (thrown + unit) \<times> coordinator" where
  "waitForAcknowledgments phase timeout slots st =
     pollLoop phase timeout slots (st\<lparr>acknowledgments := (acknowledgments st)(phase \<mapsto> {||})\<rparr>)"

definition rollback :: "reason \<Rightarrow> coordinator \<Rightarrow> (thrown + unit) \<times> coordinator" where
  "rollback r st =
     sendPhase ROLLBACK None
       (st\<lparr>console := console st @ [RollingBack r],
           currentMigration := map_option (\<lambda>m. m\<lparr>mig_status := FAILED\<rparr>) (currentMigration st)\<rparr>)"

text \<open>\<^verbatim>\<open>this.currentMigration.status = s\<close>, a TypeError when the field is null.\<close>

definition setStatus :: "migration_status \<Rightarrow> coordinator \<Rightarrow> (thrown + unit) \<times> coordinator" where
  "setStatus s st =
     (case currentMigration st of
        None \<Rightarrow> (Inl TypeError, st)
      | Some m \<Rightarrow> (Inr (), st\<lparr>currentMigration := Some (m\<lparr>mig_status := s\<rparr>)\<rparr>))"

definition setCompletedAt :: "coordinator \<Rightarrow> (thrown + unit) \<times> coordinator" where
  "setCompletedAt st =
     (case currentMigration st of
        None \<Rightarrow> (Inl TypeError, st)
      | Some m \<Rightarrow> (Inr (), st\<lparr>currentMigration := Some (m\<lparr>completedAt := Some (now st)\<rparr>)\<rparr>))"

text \<open>Sequencing inside a \<^verbatim>\<open>try\<close> block: a throw skips what follows.\<close>

definition and_then :: "(thrown + unit) \<times> coordinator \<Rightarrow> (coordinator \<Rightarrow> (thrown + unit) \<times> coordinator) \<Rightarrow> (thrown + unit) \<times> coordinator" where
  "and_then r f = (case r of (Inl e, st) \<Rightarrow> (Inl e, st) | (Inr _, st) \<Rightarrow> f st)"

text \<open>
  What the environment does during one run of \<^verbatim>\<open>startMigration\<close>: the events of
  each interval of the ANNOUNCE wait, the events delivered while the executor's promise
  is pending, and the events of each interval of the APPLY wait. Handlers run only while
  the coordinator is suspended in an \<^verbatim>\<open>await\<close>; between two of them its code
  runs to completion. A run is not overlapped by a second call of
  \<^verbatim>\<open>startMigration\<close>: the demo makes one call and awaits it.
\<close>

record schedule =
  announce_slots :: "event list list"
  execute_events :: "event list"
  apply_slots :: "event list list"

text \<open>The part of the \<^verbatim>\<open>try\<close> block after the executor reported success.\<close>

definition apply_and_confirm :: "schedule \<Rightarrow> coordinator \<Rightarrow> (thrown + unit) \<times> coordinator" where
  "apply_and_confirm sch st =
     and_then (sendPhase EXECUTE (Some SubCOMPLETED) st) (\<lambda>s1.
     and_then (setStatus APPLYING s1) (\<lambda>s2.
     and_then (sendPhase APPLY None s2) (\<lambda>s3.
     and_then (waitForAcknowledgments APPLY 30000 (apply_slots sch) s3) (\<lambda>s4.
     and_then (setStatus COMPLETED s4) (\<lambda>s5.
     and_then (setCompletedAt s5) (\<lambda>s6.
     sendPhase CONFIRM None s6))))))"

text \<open>
  \<^verbatim>\<open>await this.executor.executeMigrations(migration.sql)\<close> and the branch on its
  result; the events of \<open>execute_events\<close> are handled while the promise is pending.
\<close>

definition execute_step :: "migration \<Rightarrow> db_behaviour \<Rightarrow> schedule \<Rightarrow> coordinator \<Rightarrow> (thrown + unit) \<times> coordinator" where
  "execute_step migration beh sch st =
     (case executeMigrations beh (mig_sql migration) (executor st) of
        (Inl e, db) \<Rightarrow> (Inl (DbError e), handleEvents (execute_events sch) (st\<lparr>executor := db\<rparr>))
      | (Inr result, db) \<Rightarrow>
          (let st' = handleEvents (execute_events sch) (st\<lparr>executor := db\<rparr>) in
           if \<not> success result then rollback (ExecutionFailed (error result)) st'
           else apply_and_confirm sch st'))"

definition try_block :: "migration \<Rightarrow> db_behaviour \<Rightarrow> schedule \<Rightarrow> coordinator \<Rightarrow> (thrown + unit) \<times> coordinator" where
  "try_block migration beh sch st =
     and_then (sendPhase ANNOUNCE None st) (\<lambda>s1.
     and_then (waitForAcknowledgments ANNOUNCE 30000 (announce_slots sch) s1) (\<lambda>s2.
     and_then (setStatus EXECUTING s2) (\<lambda>s3.
     and_then (sendPhase EXECUTE (Some SubRUNNING) s3) (\<lambda>s4.
     execute_step migration beh sch s4))))"

text \<open>
  \<^verbatim>\<open>startMigration(migration)\<close>. The caller's object and
  \<^verbatim>\<open>this.currentMigration\<close> are one object, so what the caller observes afterwards
  is \<open>currentMigration\<close> of the returned state.
\<close>

definition startMigration :: "migration \<Rightarrow> db_behaviour \<Rightarrow> schedule \<Rightarrow> coordinator \<Rightarrow> (thrown + unit) \<times> coordinator" where
  "startMigration migration beh sch st =
     (let st0 = st\<lparr>currentMigration := Some (migration\<lparr>mig_status := ANNOUNCING, startedAt := now st\<rparr>)\<rparr> in
      case try_block migration beh sch st0 of
        (Inl e, st') \<Rightarrow> rollback (Caught e) st'
      | (Inr _, st') \<Rightarrow> (Inr (), st'))"


section \<open>Vocabulary of the properties\<close>

text \<open>
  The first query of a statement list that the database rejects, with its position and
  the error, when the connection has already received \<open>history\<close>.
\<close>

fun first_error :: "db_behaviour \<Rightarrow> string list \<Rightarrow> string list \<Rightarrow> (nat \<times> string) option" where
  "first_error beh history [] = None"
| "first_error beh history (q # rest) =
     (case query_error beh history q of
        Some e \<Rightarrow> Some (0, e)
      | None \<Rightarrow> map_option (\<lambda>(k, e). (Suc k, e)) (first_error beh (history @ [q]) rest))"

text \<open>The database reads the three commands the executor itself sends as what they are.\<close>

definition transactional :: "db_behaviour \<Rightarrow> bool" where
  "transactional beh =
     (command_of beh ''BEGIN'' = Begin \<and> command_of beh ''COMMIT'' = Commit \<and>
      command_of beh ''ROLLBACK'' = Rollback)"


text \<open>
  The state in which the ANNOUNCE wait begins: \<^verbatim>\<open>startMigration\<close> has stored the
  migration with status ANNOUNCING and its start date, and has broadcast ANNOUNCE.
\<close>

definition announced :: "migration \<Rightarrow> coordinator \<Rightarrow> coordinator" where
  "announced migration st =
     snd (sendPhase ANNOUNCE None
            (st\<lparr>currentMigration := Some (migration\<lparr>mig_status := ANNOUNCING, startedAt := now st\<rparr>)\<rparr>))"

text \<open>
  The two waits of a run and the state between them: the ANNOUNCE wait; the state in
  which the executor is called, once that wait has succeeded; and the APPLY wait, which
  begins once the executor has reported success, the events of \<open>execute_events\<close>
  have been handled and EXECUTE (COMPLETED) and APPLY have been broadcast.
\<close>

definition announce_wait :: "migration \<Rightarrow> schedule \<Rightarrow> coordinator \<Rightarrow> (thrown + unit) \<times> coordinator" where
  "announce_wait migration sch st =
     waitForAcknowledgments ANNOUNCE 30000 (announce_slots sch) (announced migration st)"

definition executing :: "migration \<Rightarrow> schedule \<Rightarrow> coordinator \<Rightarrow> coordinator" where
  "executing migration sch st =
     snd (sendPhase EXECUTE (Some SubRUNNING)
            (snd (setStatus EXECUTING (snd (announce_wait migration sch st)))))"

definition apply_wait :: "migration \<Rightarrow> db_behaviour \<Rightarrow> schedule \<Rightarrow> coordinator \<Rightarrow> (thrown + unit) \<times> coordinator" where
  "apply_wait migration beh sch st =
     (let s = executing migration sch st;
          db = snd (executeMigrations beh (mig_sql migration) (executor s));
          s' = handleEvents (execute_events sch) (s\<lparr>executor := db\<rparr>)
      in waitForAcknowledgments APPLY 30000 (apply_slots sch)
           (snd (sendPhase APPLY None
                   (snd (setStatus APPLYING (snd (sendPhase EXECUTE (Some SubCOMPLETED) s')))))))"

text \<open>
  Every participant in \<^verbatim>\<open>apps\<close> whose socket is open has, as the last message sent
  to it, the broadcast of phase \<open>p\<close> (without sub-status) for the current migration.
\<close>

definition received_last :: "phase \<Rightarrow> coordinator \<Rightarrow> bool" where
  "received_last p st =
     fmpred (\<lambda>appId ws. readyState ws = OPEN \<longrightarrow>
               sent ws \<noteq> [] \<and>
               (case last (sent ws) of
                  WELCOME _ \<Rightarrow> False
                | PHASE m \<Rightarrow>
                    pm_phase m = p \<and> pm_status m = None \<and>
                    map_option mig_id (currentMigration st) = Some (pm_migrationId m)))
       (apps st)"

text \<open>An event that neither adds a participant nor delivers a message.\<close>

fun quiet :: "event \<Rightarrow> bool" where
  "quiet (Connection appId) = False"
| "quiet (Message appId message) = False"
| "quiet (Close appId) = True"
| "quiet (ReadyState appId rs) = True"

text \<open>The same events, every acknowledgment carrying the status \<open>s\<close> instead of its own.\<close>

fun with_status :: "ack_status \<Rightarrow> event \<Rightarrow> event" where
  "with_status s (Message appId message) = Message appId (message\<lparr>ack_status := s\<rparr>)"
| "with_status s (Connection appId) = Connection appId"
| "with_status s (Close appId) = Close appId"
| "with_status s (ReadyState appId rs) = ReadyState appId rs"

definition schedule_with_status :: "ack_status \<Rightarrow> schedule \<Rightarrow> schedule" where
  "schedule_with_status s sch =
     \<lparr>announce_slots = map (map (with_status s)) (announce_slots sch),
      execute_events = map (with_status s) (execute_events sch),
      apply_slots = map (map (with_status s)) (apply_slots sch)\<rparr>"

text \<open>The identifier \<open>appId\<close> is in the acknowledgment set kept for phase \<open>p\<close>.\<close>

definition recorded :: "string \<Rightarrow> phase \<Rightarrow> coordinator \<Rightarrow> bool" where
  "recorded appId p st = (case acknowledgments st p of None \<Rightarrow> False | Some s \<Rightarrow> appId |\<in>| s)"

text \<open>
  The events delivered in the first \<open>n\<close> intervals of a wait; the identifiers of the
  connections that acknowledged phase \<open>p\<close> among some events; and the identifiers
  connected after some events, given those connected before them.
\<close>

definition delivered :: "nat \<Rightarrow> event list list \<Rightarrow> event list" where
  "delivered n slots = concat (take n slots)"

fun acknowledgers :: "phase \<Rightarrow> event list \<Rightarrow> string fset" where
  "acknowledgers p [] = {||}"
| "acknowledgers p (Message appId message # evs) =
     (if ack_phase message = p then finsert appId (acknowledgers p evs) else acknowledgers p evs)"
| "acknowledgers p (Connection appId # evs) = acknowledgers p evs"
| "acknowledgers p (Close appId # evs) = acknowledgers p evs"
| "acknowledgers p (ReadyState appId rs # evs) = acknowledgers p evs"

fun connected_after :: "event list \<Rightarrow> string fset \<Rightarrow> string fset" where
  "connected_after [] P = P"
| "connected_after (Connection appId # evs) P = connected_after evs (finsert appId P)"
| "connected_after (Close appId # evs) P = connected_after evs (P |-| {|appId|})"
| "connected_after (Message appId message # evs) P = connected_after evs P"
| "connected_after (ReadyState appId rs # evs) P = connected_after evs P"


section \<open>Example scenarios\<close>

definition fresh_db :: database where
  "fresh_db = \<lparr>invocations = [], acquired = 0, released = 0, queries = [], committed = [], pending = None\<rparr>"

text \<open>
  A database that reads the transaction commands in upper and in lower case; one that
  rejects nothing, and one that rejects a given query string with a given error.
\<close>

definition sql_command :: "string \<Rightarrow> command" where
  "sql_command q =
     (if q = ''BEGIN'' \<or> q = ''begin'' then Begin
      else if q = ''COMMIT'' \<or> q = ''commit'' then Commit
      else if q = ''ROLLBACK'' \<or> q = ''rollback'' then Rollback
      else Statement)"

definition healthy_db :: db_behaviour where
  "healthy_db = \<lparr>connect_error = None, query_error = (\<lambda>history q. None), command_of = sql_command\<rparr>"

definition rejecting :: "string \<Rightarrow> string \<Rightarrow> db_behaviour" where
  "rejecting bad e =
     \<lparr>connect_error = None, query_error = (\<lambda>history q. if q = bad then Some e else None),
      command_of = sql_command\<rparr>"

definition demo_sql :: "string list" where
  "demo_sql = [''ALTER TABLE users ADD COLUMN email TEXT'', ''ALTER TABLE users ADD COLUMN email_verified BOOLEAN DEFAULT FALSE'']"

text \<open>
  The coordinator as its constructor leaves it, and after the three clients of the demo
  have connected; the acknowledgment a client sends (\<^verbatim>\<open>sendAcknowledgment\<close> of
  src/client/app-client.ts); the migration of the demo.
\<close>

definition idle :: coordinator where
  "idle = \<lparr>apps = fmempty, currentMigration = None, acknowledgments = Map.empty,
           executor = fresh_db, now = 0, console = []\<rparr>"

definition three_apps :: coordinator where
  "three_apps = handleEvents [Connection ''app-1'', Connection ''app-2'', Connection ''app-3''] idle"

definition acknowledge :: "string \<Rightarrow> phase \<Rightarrow> event" where
  "acknowledge appId p =
     Message appId \<lparr>ack_phase = p, ack_status = ACKNOWLEDGED, ack_appId = appId, ack_error = None\<rparr>"

definition demo_migration :: migration where
  "demo_migration = \<lparr>mig_id = ''m-1'', mig_name = ''add_email_verified_column'', mig_sql = demo_sql,
                     mig_status = PENDING, completedAt = None, startedAt = 0\<rparr>"

text \<open>Scenario A: all three acknowledge ANNOUNCE, and APPLY after their 100 ms delay.\<close>

definition all_acknowledge :: schedule where
  "all_acknowledge =
     \<lparr>announce_slots = [[acknowledge ''app-1'' ANNOUNCE, acknowledge ''app-2'' ANNOUNCE,
                          acknowledge ''app-3'' ANNOUNCE]],
      execute_events = [],
      apply_slots = [[], [acknowledge ''app-1'' APPLY, acknowledge ''app-2'' APPLY,
                          acknowledge ''app-3'' APPLY]]\<rparr>"

text \<open>Scenario B: only two of the three acknowledge ANNOUNCE.\<close>

definition two_acknowledge_announce :: schedule where
  "two_acknowledge_announce =
     \<lparr>announce_slots = [[acknowledge ''app-1'' ANNOUNCE, acknowledge ''app-2'' ANNOUNCE]],
      execute_events = [],
      apply_slots = []\<rparr>"

text \<open>Scenario D: the third participant disconnects before acknowledging APPLY.\<close>

definition one_disconnects_during_apply :: schedule where
  "one_disconnects_during_apply =
     \<lparr>announce_slots = [[acknowledge ''app-1'' ANNOUNCE, acknowledge ''app-2'' ANNOUNCE,
                          acknowledge ''app-3'' ANNOUNCE]],
      execute_events = [],
      apply_slots = [[Close ''app-3''], [acknowledge ''app-1'' APPLY, acknowledge ''app-2'' APPLY]]\<rparr>"

text \<open>A fourth participant connects during the APPLY wait and never acknowledges.\<close>

definition late_joiner :: schedule where
  "late_joiner =
     \<lparr>announce_slots = [[acknowledge ''app-1'' ANNOUNCE, acknowledge ''app-2'' ANNOUNCE,
                          acknowledge ''app-3'' ANNOUNCE]],
      execute_events = [],
      apply_slots = [[Connection ''app-4''], [acknowledge ''app-1'' APPLY, acknowledge ''app-2'' APPLY,
                          acknowledge ''app-3'' APPLY]]\<rparr>"

definition nothing_happens :: schedule where
  "nothing_happens = \<lparr>announce_slots = [], execute_events = [], apply_slots = []\<rparr>"

text \<open>
  All three acknowledge ANNOUNCE, only two acknowledge APPLY: the first migration fails
  at APPLY. A second migration is then started on the coordinator as the first left it.
\<close>

definition two_acknowledge_apply :: schedule where
  "two_acknowledge_apply =
     \<lparr>announce_slots = [[acknowledge ''app-1'' ANNOUNCE, acknowledge ''app-2'' ANNOUNCE,
                          acknowledge ''app-3'' ANNOUNCE]],
      execute_events = [],
      apply_slots = [[], [acknowledge ''app-1'' APPLY, acknowledge ''app-2'' APPLY]]\<rparr>"

definition after_first_migration :: coordinator where
  "after_first_migration = snd (startMigration demo_migration healthy_db two_acknowledge_apply three_apps)"

definition next_migration :: migration where
  "next_migration = \<lparr>mig_id = ''m-2'', mig_name = ''add_index'', mig_sql = [''CREATE INDEX users_email ON users (email)''],
                     mig_status = PENDING, completedAt = None, startedAt = 0\<rparr>"

section \<open>Properties of the executor\<close>

lemma client_query_counters:
  "acquired (snd (client_query beh q db)) = acquired db"
  "released (snd (client_query beh q db)) = released db"
  "invocations (snd (client_query beh q db)) = invocations db"
  "queries (snd (client_query beh q db)) = queries db @ [q]"
  by (auto simp: client_query_def db_apply_def Let_def split: option.splits command.splits)

lemma client_query_fst: "fst (client_query beh q db) = query_error beh (queries db) q"
  by (auto simp: client_query_def Let_def split: option.splits)

lemma run_statements_counters:
  "acquired (snd (run_statements beh sql db)) = acquired db \<and>
   released (snd (run_statements beh sql db)) = released db \<and>
   invocations (snd (run_statements beh sql db)) = invocations db"
proof (induction sql arbitrary: db)
  case Nil
  show ?case by simp
next
  case (Cons q rest)
  obtain r db' where q: "client_query beh q db = (r, db')" by (cases "client_query beh q db")
  from q have c: "acquired db' = acquired db" "released db' = released db" "invocations db' = invocations db"
    using client_query_counters[of beh q db] by simp_all
  show ?case
  proof (cases r)
    case None
    with q c Cons.IH[of db'] show ?thesis by simp
  next
    case (Some e)
    with q c show ?thesis by simp
  qed
qed

lemma run_statements_ok:
  "first_error beh (queries db) sql = None \<Longrightarrow>
   fst (run_statements beh sql db) = None \<and> queries (snd (run_statements beh sql db)) = queries db @ sql"
proof (induction sql arbitrary: db)
  case Nil
  show ?case by simp
next
  case (Cons q rest)
  obtain r db' where q: "client_query beh q db = (r, db')" by (cases "client_query beh q db")
  from Cons.prems have ok: "query_error beh (queries db) q = None"
    and rest: "first_error beh (queries db @ [q]) rest = None"
    by (auto split: option.splits)
  from q ok have r: "r = None" using client_query_fst[of beh q db] by simp
  from q have h: "queries db' = queries db @ [q]" using client_query_counters(4)[of beh q db] by simp
  from Cons.IH[of db'] rest h q r show ?case by simp
qed

lemma run_statements_fail:
  "first_error beh (queries db) sql = Some (k, e) \<Longrightarrow>
   fst (run_statements beh sql db) = Some e \<and>
   queries (snd (run_statements beh sql db)) = queries db @ take (Suc k) sql"
proof (induction sql arbitrary: db k)
  case Nil
  then show ?case by simp
next
  case (Cons q rest)
  obtain r db' where q: "client_query beh q db = (r, db')" by (cases "client_query beh q db")
  from q have h: "queries db' = queries db @ [q]" using client_query_counters(4)[of beh q db] by simp
  from q have r: "r = query_error beh (queries db) q" using client_query_fst[of beh q db] by simp
  show ?case
  proof (cases "query_error beh (queries db) q")
    case (Some e')
    with Cons.prems have "k = 0" "e' = e" by auto
    with Some q r h show ?thesis by simp
  next
    case None
    with Cons.prems obtain k' where k: "k = Suc k'" and rest: "first_error beh (queries db @ [q]) rest = Some (k', e)"
      by (auto split: option.splits)
    from Cons.IH[of db' k'] rest h have "fst (run_statements beh rest db') = Some e \<and>
       queries (snd (run_statements beh rest db')) = queries db' @ take (Suc k') rest" by simp
    with None q r h k show ?thesis by simp
  qed
qed

lemma first_error_bound: "first_error beh h sql = Some (k, e) \<Longrightarrow> k < length sql"
  by (induction sql arbitrary: h k) (auto split: option.splits)

lemma client_query_store:
  assumes "command_of beh q = Statement" "pending db = Some p"
  shows "committed (snd (client_query beh q db)) = committed db"
    and "pending (snd (client_query beh q db)) =
          (if query_error beh (queries db) q = None then Some (p @ [q]) else Some p)"
  using assms by (auto simp: client_query_def db_apply_def Let_def split: option.splits)

lemma run_statements_store:
  "\<forall>q\<in>set sql. command_of beh q = Statement \<Longrightarrow> pending db = Some p \<Longrightarrow>
   committed (snd (run_statements beh sql db)) = committed db \<and>
   (\<exists>p'. pending (snd (run_statements beh sql db)) = Some p') \<and>
   (fst (run_statements beh sql db) = None \<longrightarrow> pending (snd (run_statements beh sql db)) = Some (p @ sql))"
proof (induction sql arbitrary: db p)
  case Nil
  then show ?case by simp
next
  case (Cons q rest)
  obtain r db' where q: "client_query beh q db = (r, db')" by (cases "client_query beh q db")
  from Cons.prems have nq: "command_of beh q = Statement" and nrest: "\<forall>q\<in>set rest. command_of beh q = Statement" by simp_all
  from q have r: "r = query_error beh (queries db) q" using client_query_fst[of beh q db] by simp
  from q client_query_store[OF nq Cons.prems(2)]
  have c: "committed db' = committed db"
    and p: "pending db' = (if query_error beh (queries db) q = None then Some (p @ [q]) else Some p)"
    by simp_all
  show ?case
  proof (cases "query_error beh (queries db) q")
    case None
    with p have p': "pending db' = Some (p @ [q])" by simp
    from None r have rn: "r = None" by simp
    from Cons.IH[OF nrest p'] c q rn show ?thesis by simp
  next
    case (Some e)
    from Some r have rs: "r = Some e" by simp
    from Some p have "pending db' = Some p" by simp
    with rs c q show ?thesis by simp
  qed
qed


lemma client_query_ok:
  "query_error beh (queries db) q = None \<Longrightarrow>
   client_query beh q db = (None, db_apply beh q (db\<lparr>queries := queries db @ [q]\<rparr>))"
  by (simp add: client_query_def)

lemma db_apply_fields:
  "queries (db_apply beh q db) = queries db"
  "acquired (db_apply beh q db) = acquired db"
  "released (db_apply beh q db) = released db"
  "invocations (db_apply beh q db) = invocations db"
  by (simp_all add: db_apply_def split: option.splits command.splits)

lemma db_apply_BEGIN:
  "transactional beh \<Longrightarrow>
   \<exists>p. pending (db_apply beh ''BEGIN'' db) = Some p \<and> (pending db = None \<longrightarrow> p = [])"
  by (simp add: db_apply_def transactional_def split: option.splits)

lemma db_apply_BEGIN_committed:
  "transactional beh \<Longrightarrow> committed (db_apply beh ''BEGIN'' db) = committed db"
  by (simp add: db_apply_def transactional_def split: option.splits)

lemma transaction_body_counters:
  "acquired (snd (transaction_body beh sql db)) = acquired db \<and>
   released (snd (transaction_body beh sql db)) = released db \<and>
   invocations (snd (transaction_body beh sql db)) = invocations db"
proof -
  obtain r1 db1 where b: "client_query beh ''BEGIN'' db = (r1, db1)"
    by (cases "client_query beh ''BEGIN'' db")
  obtain r2 db2 where s: "run_statements beh sql db1 = (r2, db2)"
    by (cases "run_statements beh sql db1")
  obtain r3 db3 where c: "client_query beh ''COMMIT'' db2 = (r3, db3)"
    by (cases "client_query beh ''COMMIT'' db2")
  from b have 1: "acquired db1 = acquired db" "released db1 = released db" "invocations db1 = invocations db"
    using client_query_counters[of beh "''BEGIN''" db] by simp_all
  from s have 2: "acquired db2 = acquired db1" "released db2 = released db1" "invocations db2 = invocations db1"
    using run_statements_counters[of beh sql db1] by simp_all
  from c have 3: "acquired db3 = acquired db2" "released db3 = released db2" "invocations db3 = invocations db2"
    using client_query_counters[of beh "''COMMIT''" db2] by simp_all
  show ?thesis
    using b s c 1 2 3 by (simp add: transaction_body_def split: option.splits)
qed

lemma executeMigrations_release:
  "acquired (snd (executeMigrations beh sql db)) + released db =
     released (snd (executeMigrations beh sql db)) + acquired db \<and>
   invocations (snd (executeMigrations beh sql db)) = invocations db @ [sql]"
proof (cases "connect_error beh")
  case (Some e)
  then show ?thesis by (simp add: executeMigrations_def)
next
  case None
  define client where "client = db\<lparr>invocations := invocations db @ [sql], acquired := Suc (acquired db)\<rparr>"
  obtain r db1 where t: "transaction_body beh sql client = (r, db1)"
    by (cases "transaction_body beh sql client")
  from t have 1: "acquired db1 = Suc (acquired db)" "released db1 = released db"
      "invocations db1 = invocations db @ [sql]"
    using transaction_body_counters[of beh sql client] by (simp_all add: client_def)
  obtain r' db2 where rb: "client_query beh ''ROLLBACK'' db1 = (r', db2)"
    by (cases "client_query beh ''ROLLBACK'' db1")
  from rb have 2: "acquired db2 = acquired db1" "released db2 = released db1" "invocations db2 = invocations db1"
    using client_query_counters[of beh "''ROLLBACK''" db1] by simp_all
  show ?thesis
    using None t rb 1 2
    by (simp add: executeMigrations_def client_def[symmetric] client_release_def split: option.splits)
qed


lemma transaction_body_success:
  assumes b: "query_error beh (queries db) ''BEGIN'' = None"
    and st: "first_error beh (queries db @ [''BEGIN'']) sql = None"
    and c: "query_error beh (queries db @ ''BEGIN'' # sql) ''COMMIT'' = None"
  shows "fst (transaction_body beh sql db) = None"
    and "queries (snd (transaction_body beh sql db)) = queries db @ ''BEGIN'' # sql @ [''COMMIT'']"
    and "transactional beh \<Longrightarrow> (\<forall>q\<in>set sql. command_of beh q = Statement) \<Longrightarrow> pending db = None \<Longrightarrow>
         committed (snd (transaction_body beh sql db)) = committed db @ sql \<and>
         pending (snd (transaction_body beh sql db)) = None"
proof -
  define db1 where "db1 = db_apply beh ''BEGIN'' (db\<lparr>queries := queries db @ [''BEGIN'']\<rparr>)"
  have q1: "client_query beh ''BEGIN'' db = (None, db1)"
    using b by (simp add: client_query_ok db1_def)
  have h1: "queries db1 = queries db @ [''BEGIN'']"
    by (simp add: db1_def db_apply_fields)
  obtain r2 db2 where s: "run_statements beh sql db1 = (r2, db2)"
    by (cases "run_statements beh sql db1")
  from run_statements_ok[of beh db1 sql] st h1 s
  have r2: "r2 = None" and h2: "queries db2 = queries db @ ''BEGIN'' # sql" by simp_all
  define db3 where "db3 = db_apply beh ''COMMIT'' (db2\<lparr>queries := queries db2 @ [''COMMIT'']\<rparr>)"
  have q3: "client_query beh ''COMMIT'' db2 = (None, db3)"
    using c h2 by (simp add: client_query_ok db3_def)
  have tb: "transaction_body beh sql db = (None, db3)"
    using q1 s r2 q3 by (simp add: transaction_body_def)
  show "fst (transaction_body beh sql db) = None" using tb by simp
  show "queries (snd (transaction_body beh sql db)) = queries db @ ''BEGIN'' # sql @ [''COMMIT'']"
    using tb h2 by (simp add: db3_def db_apply_fields)
  show "committed (snd (transaction_body beh sql db)) = committed db @ sql \<and>
        pending (snd (transaction_body beh sql db)) = None"
    if tr: "transactional beh" and nc: "\<forall>q\<in>set sql. command_of beh q = Statement" and pn: "pending db = None"
  proof -
    have p1: "pending db1 = Some []" and c1: "committed db1 = committed db"
      using pn tr by (simp_all add: db1_def db_apply_def transactional_def)
    from run_statements_store[OF nc p1] s r2
    have "committed db2 = committed db" "pending db2 = Some sql" using c1 by simp_all
    then show ?thesis using tb tr by (simp add: db3_def db_apply_def transactional_def)
  qed
qed

lemma transaction_body_failure:
  assumes b: "query_error beh (queries db) ''BEGIN'' = None"
    and st: "first_error beh (queries db @ [''BEGIN'']) sql = Some (k, e)"
  shows "fst (transaction_body beh sql db) = Some e"
    and "queries (snd (transaction_body beh sql db)) = queries db @ ''BEGIN'' # take (Suc k) sql"
    and "transactional beh \<Longrightarrow> (\<forall>q\<in>set sql. command_of beh q = Statement) \<Longrightarrow>
         committed (snd (transaction_body beh sql db)) = committed db"
proof -
  define db1 where "db1 = db_apply beh ''BEGIN'' (db\<lparr>queries := queries db @ [''BEGIN'']\<rparr>)"
  have q1: "client_query beh ''BEGIN'' db = (None, db1)"
    using b by (simp add: client_query_ok db1_def)
  have h1: "queries db1 = queries db @ [''BEGIN'']"
    by (simp add: db1_def db_apply_fields)
  obtain r2 db2 where s: "run_statements beh sql db1 = (r2, db2)"
    by (cases "run_statements beh sql db1")
  from run_statements_fail[of beh db1 sql k e] st h1 s
  have r2: "r2 = Some e" and h2: "queries db2 = queries db @ ''BEGIN'' # take (Suc k) sql" by simp_all
  have tb: "transaction_body beh sql db = (Some e, db2)"
    using q1 s r2 by (simp add: transaction_body_def)
  show "fst (transaction_body beh sql db) = Some e" using tb by simp
  show "queries (snd (transaction_body beh sql db)) = queries db @ ''BEGIN'' # take (Suc k) sql"
    using tb h2 by simp
  show "committed (snd (transaction_body beh sql db)) = committed db"
    if tr: "transactional beh" and nc: "\<forall>q\<in>set sql. command_of beh q = Statement"
  proof -
    obtain p where p1: "pending db1 = Some p"
      using db_apply_BEGIN[OF tr, of "db\<lparr>queries := queries db @ [''BEGIN'']\<rparr>"] by (auto simp: db1_def)
    have c1: "committed db1 = committed db"
      by (simp add: db1_def db_apply_BEGIN_committed[OF tr])
    from run_statements_store[OF nc p1] s have "committed db2 = committed db1" by simp
    with c1 tb show ?thesis by simp
  qed
qed

lemma executeMigrations_success:
  assumes "connect_error beh = None"
    and b: "query_error beh (queries db) ''BEGIN'' = None"
    and st: "first_error beh (queries db @ [''BEGIN'']) sql = None"
    and c: "query_error beh (queries db @ ''BEGIN'' # sql) ''COMMIT'' = None"
  shows "fst (executeMigrations beh sql db) = Inr \<lparr>success = True, error = None\<rparr>"
    and "queries (snd (executeMigrations beh sql db)) = queries db @ ''BEGIN'' # sql @ [''COMMIT'']"
    and "transactional beh \<Longrightarrow> (\<forall>q\<in>set sql. command_of beh q = Statement) \<Longrightarrow> pending db = None \<Longrightarrow>
         committed (snd (executeMigrations beh sql db)) = committed db @ sql \<and>
         pending (snd (executeMigrations beh sql db)) = None"
proof -
  define client where "client = db\<lparr>invocations := invocations db @ [sql], acquired := Suc (acquired db)\<rparr>"
  have f: "queries client = queries db" "pending client = pending db" "committed client = committed db"
    by (simp_all add: client_def)
  obtain r db1 where t: "transaction_body beh sql client = (r, db1)"
    by (cases "transaction_body beh sql client")
  have r: "r = None" and h: "queries db1 = queries db @ ''BEGIN'' # sql @ [''COMMIT'']"
    using transaction_body_success(1,2)[of beh client sql] b st c f t by simp_all
  have e: "executeMigrations beh sql db = (Inr \<lparr>success = True, error = None\<rparr>, client_release db1)"
    using assms(1) t r by (simp add: executeMigrations_def client_def[symmetric])
  show "fst (executeMigrations beh sql db) = Inr \<lparr>success = True, error = None\<rparr>"
    using e by simp
  show "queries (snd (executeMigrations beh sql db)) = queries db @ ''BEGIN'' # sql @ [''COMMIT'']"
    using e h by (simp add: client_release_def)
  show "committed (snd (executeMigrations beh sql db)) = committed db @ sql \<and>
        pending (snd (executeMigrations beh sql db)) = None"
    if tr: "transactional beh" and nc: "\<forall>q\<in>set sql. command_of beh q = Statement" and pn: "pending db = None"
    using transaction_body_success(3)[of beh client sql] b st c f t tr nc pn e
    by (simp add: client_release_def)
qed

lemma executeMigrations_failure:
  assumes "connect_error beh = None"
    and b: "query_error beh (queries db) ''BEGIN'' = None"
    and st: "first_error beh (queries db @ [''BEGIN'']) sql = Some (k, e)"
    and rb: "query_error beh (queries db @ ''BEGIN'' # take (Suc k) sql) ''ROLLBACK'' = None"
  shows "fst (executeMigrations beh sql db) = Inr \<lparr>success = False, error = Some e\<rparr>"
    and "queries (snd (executeMigrations beh sql db)) =
           queries db @ ''BEGIN'' # take (Suc k) sql @ [''ROLLBACK'']"
    and "transactional beh \<Longrightarrow> (\<forall>q\<in>set sql. command_of beh q = Statement) \<Longrightarrow>
         committed (snd (executeMigrations beh sql db)) = committed db \<and>
         pending (snd (executeMigrations beh sql db)) = None"
proof -
  define client where "client = db\<lparr>invocations := invocations db @ [sql], acquired := Suc (acquired db)\<rparr>"
  have f: "queries client = queries db" "pending client = pending db" "committed client = committed db"
    by (simp_all add: client_def)
  obtain r db1 where t: "transaction_body beh sql client = (r, db1)"
    by (cases "transaction_body beh sql client")
  have r: "r = Some e" and h: "queries db1 = queries db @ ''BEGIN'' # take (Suc k) sql"
    using transaction_body_failure(1,2)[of beh client sql k e] b st f t by simp_all
  define db2 where "db2 = db_apply beh ''ROLLBACK'' (db1\<lparr>queries := queries db1 @ [''ROLLBACK'']\<rparr>)"
  have q: "client_query beh ''ROLLBACK'' db1 = (None, db2)"
    using rb h by (simp add: client_query_ok db2_def)
  have e: "executeMigrations beh sql db = (Inr \<lparr>success = False, error = Some e\<rparr>, client_release db2)"
    using assms(1) t r q by (simp add: executeMigrations_def client_def[symmetric])
  show "fst (executeMigrations beh sql db) = Inr \<lparr>success = False, error = Some e\<rparr>"
    using e by simp
  show "queries (snd (executeMigrations beh sql db)) =
          queries db @ ''BEGIN'' # take (Suc k) sql @ [''ROLLBACK'']"
    using e h by (simp add: client_release_def db2_def db_apply_fields)
  show "committed (snd (executeMigrations beh sql db)) = committed db \<and>
        pending (snd (executeMigrations beh sql db)) = None"
    if tr: "transactional beh" and nc: "\<forall>q\<in>set sql. command_of beh q = Statement"
    using transaction_body_failure(3)[of beh client sql k e] b st f t tr nc e
    by (simp add: client_release_def db2_def db_apply_def transactional_def)
qed


text \<open>
  C3, as stated, fails for lists that contain a transaction command of their own: the
  executor sends every string as it is. For the list of a statement, COMMIT (or commit)
  and a statement the database rejects, the call returns failure and has sent ROLLBACK,
  but the first statement is committed: a partial change survives.
\<close>

theorem commit_inside_the_list_survives_rollback:
  "fst (executeMigrations (rejecting ''DROP TABLE missing'' ''no such table'')
          [demo_sql ! 0, ''COMMIT'', ''DROP TABLE missing''] fresh_db) =
     Inr \<lparr>success = False, error = Some ''no such table''\<rparr> \<and>
   queries (snd (executeMigrations (rejecting ''DROP TABLE missing'' ''no such table'')
          [demo_sql ! 0, ''COMMIT'', ''DROP TABLE missing''] fresh_db)) =
     [''BEGIN'', demo_sql ! 0, ''COMMIT'', ''DROP TABLE missing'', ''ROLLBACK''] \<and>
   committed (snd (executeMigrations (rejecting ''DROP TABLE missing'' ''no such table'')
          [demo_sql ! 0, ''COMMIT'', ''DROP TABLE missing''] fresh_db)) = [demo_sql ! 0] \<and>
   fst (executeMigrations (rejecting ''DROP TABLE missing'' ''no such table'')
          [demo_sql ! 0, ''commit'', ''DROP TABLE missing''] fresh_db) =
     Inr \<lparr>success = False, error = Some ''no such table''\<rparr> \<and>
   committed (snd (executeMigrations (rejecting ''DROP TABLE missing'' ''no such table'')
          [demo_sql ! 0, ''commit'', ''DROP TABLE missing''] fresh_db)) = [demo_sql ! 0]"
  by (simp add: executeMigrations_def transaction_body_def client_query_def client_release_def
      db_apply_def rejecting_def sql_command_def fresh_db_def demo_sql_def)

text \<open>
  C3, amended. For every list of statements: when a client is acquired and BEGIN, every
  statement and COMMIT are accepted, the executor has sent BEGIN, the statements in
  listed order and COMMIT, nothing else, and returns success. When a client is acquired,
  BEGIN is accepted, a statement is rejected and ROLLBACK is accepted, it has sent BEGIN,
  the statements in listed order up to the first rejected one, and ROLLBACK, nothing
  else, and returns failure with the error of that statement. (A rejected BEGIN, COMMIT
  or ROLLBACK is an unexpected fault.) On a database that reads the executor's three
  commands as what they are and reads every statement of the list as a plain statement,
  never as a transaction command, the statements are then committed as a whole in the
  first case (the connection having had no transaction open), and in the second case
  nothing is committed and no transaction is left open. On every path of every call, a
  fault of the database included, as many clients are released as were acquired.
\<close>

theorem executeMigrations_transactional:
  "(connect_error beh = None \<and> query_error beh (queries db) ''BEGIN'' = None \<and>
    first_error beh (queries db @ [''BEGIN'']) sql = None \<and>
    query_error beh (queries db @ ''BEGIN'' # sql) ''COMMIT'' = None \<longrightarrow>
      fst (executeMigrations beh sql db) = Inr \<lparr>success = True, error = None\<rparr> \<and>
      queries (snd (executeMigrations beh sql db)) = queries db @ ''BEGIN'' # sql @ [''COMMIT''] \<and>
      (transactional beh \<and> (\<forall>q\<in>set sql. command_of beh q = Statement) \<and> pending db = None \<longrightarrow>
         committed (snd (executeMigrations beh sql db)) = committed db @ sql \<and>
         pending (snd (executeMigrations beh sql db)) = None)) \<and>
   (connect_error beh = None \<and> query_error beh (queries db) ''BEGIN'' = None \<and>
    first_error beh (queries db @ [''BEGIN'']) sql = Some (k, e) \<and>
    query_error beh (queries db @ ''BEGIN'' # take (Suc k) sql) ''ROLLBACK'' = None \<longrightarrow>
      fst (executeMigrations beh sql db) = Inr \<lparr>success = False, error = Some e\<rparr> \<and>
      queries (snd (executeMigrations beh sql db)) =
        queries db @ ''BEGIN'' # take (Suc k) sql @ [''ROLLBACK''] \<and>
      (transactional beh \<and> (\<forall>q\<in>set sql. command_of beh q = Statement) \<longrightarrow>
         committed (snd (executeMigrations beh sql db)) = committed db \<and>
         pending (snd (executeMigrations beh sql db)) = None)) \<and>
   acquired (snd (executeMigrations beh sql db)) + released db =
     released (snd (executeMigrations beh sql db)) + acquired db"
proof (intro conjI impI)
  assume a: "connect_error beh = None \<and> query_error beh (queries db) ''BEGIN'' = None \<and>
    first_error beh (queries db @ [''BEGIN'']) sql = None \<and>
    query_error beh (queries db @ ''BEGIN'' # sql) ''COMMIT'' = None"
  then show "fst (executeMigrations beh sql db) = Inr \<lparr>success = True, error = None\<rparr>"
    by (simp add: executeMigrations_success(1))
  from a show "queries (snd (executeMigrations beh sql db)) = queries db @ ''BEGIN'' # sql @ [''COMMIT'']"
    by (simp add: executeMigrations_success(2))
  assume "transactional beh \<and> (\<forall>q\<in>set sql. command_of beh q = Statement) \<and> pending db = None"
  with a executeMigrations_success(3)[of beh db sql]
  show "committed (snd (executeMigrations beh sql db)) = committed db @ sql"
    and "pending (snd (executeMigrations beh sql db)) = None"
    by simp_all
next
  assume a: "connect_error beh = None \<and> query_error beh (queries db) ''BEGIN'' = None \<and>
    first_error beh (queries db @ [''BEGIN'']) sql = Some (k, e) \<and>
    query_error beh (queries db @ ''BEGIN'' # take (Suc k) sql) ''ROLLBACK'' = None"
  then show "fst (executeMigrations beh sql db) = Inr \<lparr>success = False, error = Some e\<rparr>"
    by (simp add: executeMigrations_failure(1))
  from a show "queries (snd (executeMigrations beh sql db)) =
        queries db @ ''BEGIN'' # take (Suc k) sql @ [''ROLLBACK'']"
    using executeMigrations_failure(2)[of beh db sql k e] by simp
  assume "transactional beh \<and> (\<forall>q\<in>set sql. command_of beh q = Statement)"
  with a executeMigrations_failure(3)[of beh db sql k e]
  show "committed (snd (executeMigrations beh sql db)) = committed db"
    and "pending (snd (executeMigrations beh sql db)) = None"
    by simp_all
next
  show "acquired (snd (executeMigrations beh sql db)) + released db =
     released (snd (executeMigrations beh sql db)) + acquired db"
    using executeMigrations_release[of beh sql db] by simp
qed

theorem executeMigrations_transactional_witness:
  "transactional healthy_db \<and> command_of healthy_db (demo_sql ! 0) = Statement \<and>
   command_of healthy_db (demo_sql ! 1) = Statement \<and>
   fst (executeMigrations healthy_db demo_sql fresh_db) = Inr \<lparr>success = True, error = None\<rparr> \<and>
   queries (snd (executeMigrations healthy_db demo_sql fresh_db)) = ''BEGIN'' # demo_sql @ [''COMMIT''] \<and>
   committed (snd (executeMigrations healthy_db demo_sql fresh_db)) = demo_sql \<and>
   fst (executeMigrations (rejecting (demo_sql ! 1) ''boom'') demo_sql fresh_db) =
     Inr \<lparr>success = False, error = Some ''boom''\<rparr> \<and>
   queries (snd (executeMigrations (rejecting (demo_sql ! 1) ''boom'') demo_sql fresh_db)) =
     ''BEGIN'' # demo_sql @ [''ROLLBACK''] \<and>
   committed (snd (executeMigrations (rejecting (demo_sql ! 1) ''boom'') demo_sql fresh_db)) = [] \<and>
   acquired (snd (executeMigrations (rejecting (demo_sql ! 1) ''boom'') demo_sql fresh_db)) =
     released (snd (executeMigrations (rejecting (demo_sql ! 1) ''boom'') demo_sql fresh_db))"
  using executeMigrations_transactional[of healthy_db fresh_db demo_sql]
    executeMigrations_transactional[of "rejecting (demo_sql ! 1) ''boom''" fresh_db demo_sql 1 "''boom''"]
  by (simp add: healthy_db_def fresh_db_def demo_sql_def rejecting_def transactional_def sql_command_def)

section \<open>Properties of event handling and of the wait\<close>

lemma handleEvent_frame:
  "currentMigration (handleEvent e st) = currentMigration st"
  "executor (handleEvent e st) = executor st"
  "console (handleEvent e st) = console st"
  "now (handleEvent e st) = now st"
  by (cases e; simp add: handleConnection_def handleAcknowledgment_def handleClose_def Let_def)+

lemma handleEvents_frame:
  "currentMigration (handleEvents evs st) = currentMigration st \<and>
   executor (handleEvents evs st) = executor st \<and>
   console (handleEvents evs st) = console st \<and>
   now (handleEvents evs st) = now st"
  unfolding handleEvents_def
  by (induction evs arbitrary: st) (simp_all add: handleEvent_frame)

lemma elapse_fields:
  "currentMigration (elapse ms st) = currentMigration st"
  "executor (elapse ms st) = executor st"
  "console (elapse ms st) = console st"
  "apps (elapse ms st) = apps st"
  "acknowledgments (elapse ms st) = acknowledgments st"
  "now (elapse ms st) = now st + ms"
  by (simp_all add: elapse_def)

lemma quorum_elapse: "quorum phase (elapse ms st) = quorum phase st"
  by (simp add: quorum_def elapse_def split: option.splits)

lemma ackCount_elapse: "ackCount phase (elapse ms st) = ackCount phase st"
  by (simp add: ackCount_def elapse_def split: option.splits)

lemma pollLoop_timeout:
  "remaining \<le> 100 \<Longrightarrow>
   pollLoop phase remaining (evs # rest) st =
     (Inl (Timeout (ackCount phase (handleEvents evs st)) (fcard (fmdom (apps (handleEvents evs st)))) phase),
      elapse remaining (handleEvents evs st))"
  by (subst pollLoop.simps) (simp add: Let_def ackCount_elapse elapse_fields)

lemma pollLoop_resolve:
  "100 < remaining \<Longrightarrow> quorum phase (handleEvents evs st) \<Longrightarrow>
   pollLoop phase remaining (evs # rest) st = (Inr (), elapse 100 (handleEvents evs st))"
  by (subst pollLoop.simps) (simp add: Let_def quorum_elapse)

lemma pollLoop_continue:
  "100 < remaining \<Longrightarrow> \<not> quorum phase (handleEvents evs st) \<Longrightarrow>
   pollLoop phase remaining (evs # rest) st =
     pollLoop phase (remaining - 100) rest (elapse 100 (handleEvents evs st))"
  by (subst pollLoop.simps) (simp add: Let_def quorum_elapse)

lemma pollLoop_Nil: "pollLoop phase remaining [] st = pollLoop phase remaining [[]] st"
  by (subst (1 2) pollLoop.simps) (simp cong: if_cong)

lemma handleEvents_Nil: "handleEvents [] st = st"
  by (simp add: handleEvents_def)

lemma pollLoop_frame:
  "currentMigration (snd (pollLoop phase remaining slots st)) = currentMigration st \<and>
   executor (snd (pollLoop phase remaining slots st)) = executor st \<and>
   console (snd (pollLoop phase remaining slots st)) = console st"
proof (induction remaining arbitrary: slots st rule: less_induct)
  case (less remaining)
  obtain evs rest where sl: "pollLoop phase remaining slots st = pollLoop phase remaining (evs # rest) st"
  proof (cases slots)
    case Nil
    then show ?thesis using that[of "[]" "[]"] by (simp add: pollLoop_Nil)
  next
    case (Cons evs rest)
    then show ?thesis using that[of evs rest] by simp
  qed
  define st1 where "st1 = handleEvents evs st"
  have f1: "currentMigration st1 = currentMigration st" "executor st1 = executor st" "console st1 = console st"
    using handleEvents_frame[of evs st] by (simp_all add: st1_def)
  consider "remaining \<le> 100" | "100 < remaining" "quorum phase st1" | "100 < remaining" "\<not> quorum phase st1"
    by linarith
  then show ?case
  proof cases
    case 1
    then show ?thesis using f1 by (simp add: sl pollLoop_timeout st1_def[symmetric] elapse_fields)
  next
    case 2
    then show ?thesis using f1 by (simp add: sl pollLoop_resolve st1_def[symmetric] elapse_fields)
  next
    case 3
    then have "remaining - 100 < remaining" by simp
    from less.IH[OF this, of rest "elapse 100 st1"] 3 f1
    show ?thesis by (simp add: sl pollLoop_continue st1_def[symmetric] elapse_fields)
  qed
qed

lemma pollLoop_result:
  "fst (pollLoop phase remaining slots st) = Inr () \<or>
   (\<exists>k n. fst (pollLoop phase remaining slots st) = Inl (Timeout k n phase))"
proof (induction remaining arbitrary: slots st rule: less_induct)
  case (less remaining)
  obtain evs rest where sl: "pollLoop phase remaining slots st = pollLoop phase remaining (evs # rest) st"
  proof (cases slots)
    case Nil
    then show ?thesis using that[of "[]" "[]"] by (simp add: pollLoop_Nil)
  next
    case (Cons evs rest)
    then show ?thesis using that[of evs rest] by simp
  qed
  define st1 where "st1 = handleEvents evs st"
  consider "remaining \<le> 100" | "100 < remaining" "quorum phase st1" | "100 < remaining" "\<not> quorum phase st1"
    by linarith
  then show ?case
  proof cases
    case 1
    then show ?thesis by (simp add: sl pollLoop_timeout)
  next
    case 2
    then show ?thesis by (simp add: sl pollLoop_resolve st1_def[symmetric])
  next
    case 3
    then have "remaining - 100 < remaining" by simp
    from less.IH[OF this, of rest "elapse 100 st1"] 3
    show ?thesis by (simp add: sl pollLoop_continue st1_def[symmetric])
  qed
qed

lemma pollLoop_idle:
  "\<not> quorum phase st \<Longrightarrow>
   pollLoop phase remaining [] st =
     (Inl (Timeout (ackCount phase st) (fcard (fmdom (apps st))) phase), elapse remaining st)"
proof (induction remaining arbitrary: st rule: less_induct)
  case (less remaining)
  show ?case
  proof (cases "remaining \<le> 100")
    case True
    then show ?thesis by (simp add: pollLoop_Nil pollLoop_timeout handleEvents_Nil)
  next
    case False
    then have lt: "remaining - 100 < remaining" and gt: "100 < remaining" by simp_all
    have nq: "\<not> quorum phase (elapse 100 st)" using less.prems by (simp add: quorum_elapse)
    have e: "elapse (remaining - 100) (elapse 100 st) = elapse remaining st"
      using gt by (simp add: elapse_def)
    from less.IH[OF lt nq] gt less.prems e show ?thesis
      by (simp add: pollLoop_Nil pollLoop_continue handleEvents_Nil ackCount_elapse elapse_fields)
  qed
qed


section \<open>Properties of the steps of startMigration\<close>

lemma sendPhase_ok:
  assumes "currentMigration st = Some m"
  shows "fst (sendPhase p s st) = Inr ()"
    and "currentMigration (snd (sendPhase p s st)) = Some m"
    and "executor (snd (sendPhase p s st)) = executor st"
    and "console (snd (sendPhase p s st)) = console st @ [Broadcasting p s]"
    and "now (snd (sendPhase p s st)) = now st"
    and "acknowledgments (snd (sendPhase p s st)) = acknowledgments st"
    and "fmdom (apps (snd (sendPhase p s st))) = fmdom (apps st)"
  using assms by (simp_all add: sendPhase_def broadcast_def)

lemma sendPhase_received:
  assumes "currentMigration st = Some m"
  shows "received_last p (snd (sendPhase p None st))"
proof -
  define msg where "msg = \<lparr>pm_phase = p, pm_migrationId = mig_id m, pm_status = None, pm_timestamp = now st\<rparr>"
  define deliver :: "websocket \<Rightarrow> websocket" where "deliver = (\<lambda>ws. if readyState ws = OPEN then ws\<lparr>sent := sent ws @ [PHASE msg]\<rparr> else ws)"
  have a: "apps (snd (sendPhase p None st)) = fmmap deliver (apps st)"
    and c: "currentMigration (snd (sendPhase p None st)) = Some m"
    using assms unfolding msg_def deliver_def by (simp_all add: sendPhase_def broadcast_def)
  have "sent ws \<noteq> [] \<and>
        (case last (sent ws) of
           WELCOME _ \<Rightarrow> False
         | PHASE m' \<Rightarrow>
             pm_phase m' = p \<and> pm_status m' = None \<and>
             map_option mig_id (currentMigration (snd (sendPhase p None st))) = Some (pm_migrationId m'))"
    if l: "fmlookup (fmmap deliver (apps st)) appId = Some ws" and o: "readyState ws = OPEN" for appId ws
  proof -
    from l obtain ws0 where w: "ws = deliver ws0" by auto
    have "readyState ws0 = OPEN" using o w by (simp add: deliver_def split: if_splits)
    then have "sent ws = sent ws0 @ [PHASE msg]" using w by (simp add: deliver_def)
    then show ?thesis using c by (simp add: msg_def)
  qed
  then show ?thesis
    unfolding received_last_def fmpred_iff a by blast
qed

lemma setStatus_ok:
  assumes "currentMigration st = Some m"
  shows "fst (setStatus s st) = Inr ()"
    and "currentMigration (snd (setStatus s st)) = Some (m\<lparr>mig_status := s\<rparr>)"
    and "executor (snd (setStatus s st)) = executor st"
    and "console (snd (setStatus s st)) = console st"
    and "now (snd (setStatus s st)) = now st"
    and "acknowledgments (snd (setStatus s st)) = acknowledgments st"
    and "apps (snd (setStatus s st)) = apps st"
  using assms by (simp_all add: setStatus_def)

lemma setCompletedAt_ok:
  assumes "currentMigration st = Some m"
  shows "fst (setCompletedAt st) = Inr ()"
    and "currentMigration (snd (setCompletedAt st)) = Some (m\<lparr>completedAt := Some (now st)\<rparr>)"
    and "executor (snd (setCompletedAt st)) = executor st"
    and "console (snd (setCompletedAt st)) = console st"
    and "now (snd (setCompletedAt st)) = now st"
    and "acknowledgments (snd (setCompletedAt st)) = acknowledgments st"
    and "apps (snd (setCompletedAt st)) = apps st"
  using assms by (simp_all add: setCompletedAt_def)

lemma rollback_ok:
  assumes "currentMigration st = Some m"
  shows "fst (rollback r st) = Inr ()"
    and "currentMigration (snd (rollback r st)) = Some (m\<lparr>mig_status := FAILED\<rparr>)"
    and "executor (snd (rollback r st)) = executor st"
    and "console (snd (rollback r st)) = console st @ [RollingBack r, Broadcasting ROLLBACK None]"
    and "now (snd (rollback r st)) = now st"
    and "received_last ROLLBACK (snd (rollback r st))"
proof -
  define st' where "st' = st\<lparr>console := console st @ [RollingBack r],
           currentMigration := map_option (\<lambda>m. m\<lparr>mig_status := FAILED\<rparr>) (currentMigration st)\<rparr>"
  have c: "currentMigration st' = Some (m\<lparr>mig_status := FAILED\<rparr>)"
    using assms by (simp add: st'_def)
  have r: "rollback r st = sendPhase ROLLBACK None st'"
    by (simp add: rollback_def st'_def)
  show "fst (rollback r st) = Inr ()" using sendPhase_ok(1)[OF c] r by simp
  show "currentMigration (snd (rollback r st)) = Some (m\<lparr>mig_status := FAILED\<rparr>)"
    using sendPhase_ok(2)[OF c] r by simp
  show "executor (snd (rollback r st)) = executor st"
    using sendPhase_ok(3)[OF c] r by (simp add: st'_def)
  show "console (snd (rollback r st)) = console st @ [RollingBack r, Broadcasting ROLLBACK None]"
    using sendPhase_ok(4)[OF c] r by (simp add: st'_def)
  show "now (snd (rollback r st)) = now st"
    using sendPhase_ok(5)[OF c] r by (simp add: st'_def)
  show "received_last ROLLBACK (snd (rollback r st))"
    using sendPhase_received[OF c] r by simp
qed

lemma wait_frame:
  "currentMigration (snd (waitForAcknowledgments phase timeout slots st)) = currentMigration st"
  "executor (snd (waitForAcknowledgments phase timeout slots st)) = executor st"
  "console (snd (waitForAcknowledgments phase timeout slots st)) = console st"
  using pollLoop_frame[of phase timeout slots "st\<lparr>acknowledgments := (acknowledgments st)(phase \<mapsto> {||})\<rparr>"]
  by (simp_all add: waitForAcknowledgments_def)

lemma wait_result:
  "fst (waitForAcknowledgments phase timeout slots st) = Inr () \<or>
   (\<exists>k n. fst (waitForAcknowledgments phase timeout slots st) = Inl (Timeout k n phase))"
  using pollLoop_result[of phase timeout slots] by (simp add: waitForAcknowledgments_def)

lemma and_then_Inr: "fst r = Inr u \<Longrightarrow> and_then r f = f (snd r)"
  by (cases r) (simp add: and_then_def)

lemma and_then_Inl: "fst r = Inl e \<Longrightarrow> and_then r f = (Inl e, snd r)"
  by (cases r) (simp add: and_then_def)

lemma apply_and_confirm_cases:
  assumes cm: "currentMigration st = Some m"
  shows "(\<exists>k n. fst (apply_and_confirm sch st) = Inl (Timeout k n APPLY) \<and>
            currentMigration (snd (apply_and_confirm sch st)) = Some (m\<lparr>mig_status := APPLYING\<rparr>) \<and>
            executor (snd (apply_and_confirm sch st)) = executor st \<and>
            console (snd (apply_and_confirm sch st)) =
              console st @ [Broadcasting EXECUTE (Some SubCOMPLETED), Broadcasting APPLY None]) \<or>
         (\<exists>t. fst (apply_and_confirm sch st) = Inr () \<and>
            currentMigration (snd (apply_and_confirm sch st)) =
              Some (m\<lparr>mig_status := COMPLETED, completedAt := Some t\<rparr>) \<and>
            executor (snd (apply_and_confirm sch st)) = executor st \<and>
            console (snd (apply_and_confirm sch st)) =
              console st @ [Broadcasting EXECUTE (Some SubCOMPLETED), Broadcasting APPLY None,
                            Broadcasting CONFIRM None] \<and>
            received_last CONFIRM (snd (apply_and_confirm sch st)))"
proof -
  define s1 where "s1 = snd (sendPhase EXECUTE (Some SubCOMPLETED) st)"
  note p1 = sendPhase_ok[OF cm, of EXECUTE "Some SubCOMPLETED", folded s1_def]
  define s2 where "s2 = snd (setStatus APPLYING s1)"
  note p2 = setStatus_ok[OF p1(2), of APPLYING, folded s2_def]
  define s3 where "s3 = snd (sendPhase APPLY None s2)"
  note p3 = sendPhase_ok[OF p2(2), of APPLY None, folded s3_def]
  define w where "w = waitForAcknowledgments APPLY 30000 (apply_slots sch) s3"
  define s4 where "s4 = snd w"
  have p4: "currentMigration s4 = Some (m\<lparr>mig_status := APPLYING\<rparr>)" "executor s4 = executor st"
    "console s4 = console st @ [Broadcasting EXECUTE (Some SubCOMPLETED), Broadcasting APPLY None]"
    using wait_frame[of APPLY 30000 "apply_slots sch" s3] p3 p2 p1 by (simp_all add: s4_def w_def)
  have unf: "apply_and_confirm sch st =
      and_then w (\<lambda>s4.
      and_then (setStatus COMPLETED s4) (\<lambda>s5.
      and_then (setCompletedAt s5) (\<lambda>s6. sendPhase CONFIRM None s6)))"
    unfolding apply_and_confirm_def
    using p1(1) p2(1) p3(1)
    by (simp add: and_then_Inr s1_def s2_def s3_def w_def)
  from wait_result[of APPLY 30000 "apply_slots sch" s3]
  consider (ok) "fst w = Inr ()" | (timeout) k n where "fst w = Inl (Timeout k n APPLY)"
    by (auto simp: w_def)
  then show ?thesis
  proof cases
    case timeout
    then have "apply_and_confirm sch st = (Inl (Timeout k n APPLY), s4)"
      by (simp add: unf and_then_Inl s4_def)
    with p4 show ?thesis by simp
  next
    case ok
    define s5 where "s5 = snd (setStatus COMPLETED s4)"
    note p5 = setStatus_ok[OF p4(1), of COMPLETED, folded s5_def]
    define s6 where "s6 = snd (setCompletedAt s5)"
    note p6 = setCompletedAt_ok[OF p5(2), folded s6_def]
    have r: "apply_and_confirm sch st = sendPhase CONFIRM None s6"
      using ok p5(1) p6(1) by (simp add: unf and_then_Inr s4_def s5_def s6_def)
    note p7 = sendPhase_ok[OF p6(2), of CONFIRM None] sendPhase_received[OF p6(2), of CONFIRM]
    have "fst (apply_and_confirm sch st) = Inr () \<and>
            currentMigration (snd (apply_and_confirm sch st)) =
              Some (m\<lparr>mig_status := COMPLETED, completedAt := Some (now s5)\<rparr>) \<and>
            executor (snd (apply_and_confirm sch st)) = executor st \<and>
            console (snd (apply_and_confirm sch st)) =
              console st @ [Broadcasting EXECUTE (Some SubCOMPLETED), Broadcasting APPLY None,
                            Broadcasting CONFIRM None] \<and>
            received_last CONFIRM (snd (apply_and_confirm sch st))"
      using p7 p6 p5 p4 by (simp add: r)
    then show ?thesis by blast
  qed
qed

lemma execute_step_cases:
  assumes cm: "currentMigration st = Some m"
    and ex: "ex = executeMigrations beh (mig_sql migration) (executor st)"
    and r: "r = execute_step migration beh sch st"
  shows "(\<exists>e. fst ex = Inl e \<and> fst r = Inl (DbError e) \<and>
            currentMigration (snd r) = Some m \<and> executor (snd r) = snd ex \<and>
            console (snd r) = console st) \<or>
         (\<exists>res. fst ex = Inr res \<and> \<not> success res \<and> fst r = Inr () \<and>
            currentMigration (snd r) = Some (m\<lparr>mig_status := FAILED\<rparr>) \<and> executor (snd r) = snd ex \<and>
            console (snd r) = console st @ [RollingBack (ExecutionFailed (error res)), Broadcasting ROLLBACK None] \<and>
            received_last ROLLBACK (snd r)) \<or>
         (\<exists>res k n. fst ex = Inr res \<and> success res \<and> fst r = Inl (Timeout k n APPLY) \<and>
            currentMigration (snd r) = Some (m\<lparr>mig_status := APPLYING\<rparr>) \<and> executor (snd r) = snd ex \<and>
            console (snd r) = console st @ [Broadcasting EXECUTE (Some SubCOMPLETED), Broadcasting APPLY None]) \<or>
         (\<exists>res t. fst ex = Inr res \<and> success res \<and> fst r = Inr () \<and>
            currentMigration (snd r) = Some (m\<lparr>mig_status := COMPLETED, completedAt := Some t\<rparr>) \<and>
            executor (snd r) = snd ex \<and>
            console (snd r) = console st @ [Broadcasting EXECUTE (Some SubCOMPLETED), Broadcasting APPLY None,
                                            Broadcasting CONFIRM None] \<and>
            received_last CONFIRM (snd r))"
proof -
  define st' where "st' = handleEvents (execute_events sch) (st\<lparr>executor := snd ex\<rparr>)"
  have f: "currentMigration st' = Some m" "executor st' = snd ex" "console st' = console st"
    using handleEvents_frame[of "execute_events sch" "st\<lparr>executor := snd ex\<rparr>"] cm
    by (simp_all add: st'_def)
  show ?thesis
  proof (cases "fst ex")
    case (Inl e)
    then have "r = (Inl (DbError e), st')"
      unfolding r execute_step_def ex[symmetric] st'_def by (cases ex) simp
    with Inl f show ?thesis by simp
  next
    case (Inr res)
    show ?thesis
    proof (cases "success res")
      case False
      with Inr have "r = rollback (ExecutionFailed (error res)) st'"
        unfolding r execute_step_def ex[symmetric] st'_def by (cases ex) (simp add: Let_def)
      with rollback_ok[OF f(1), of "ExecutionFailed (error res)"] Inr False f show ?thesis by simp
    next
      case True
      with Inr have "r = apply_and_confirm sch st'"
        unfolding r execute_step_def ex[symmetric] st'_def by (cases ex) (simp add: Let_def)
      then have rs: "execute_step migration beh sch st = apply_and_confirm sch st'" by (simp add: r)
      from apply_and_confirm_cases[OF f(1), of sch] show ?thesis
      proof (elim disjE exE conjE, goal_cases)
        case (1 k n)
        have "\<exists>res k n. fst ex = Inr res \<and> success res \<and> fst r = Inl (Timeout k n APPLY) \<and>
            currentMigration (snd r) = Some (m\<lparr>mig_status := APPLYING\<rparr>) \<and> executor (snd r) = snd ex \<and>
            console (snd r) = console st @ [Broadcasting EXECUTE (Some SubCOMPLETED), Broadcasting APPLY None]"
          using 1 Inr True f by (intro exI[of _ res] exI[of _ k] exI[of _ n]) (simp add: r rs)
        then show ?case by blast
      next
        case (2 t)
        have "\<exists>res t. fst ex = Inr res \<and> success res \<and> fst r = Inr () \<and>
            currentMigration (snd r) = Some (m\<lparr>mig_status := COMPLETED, completedAt := Some t\<rparr>) \<and>
            executor (snd r) = snd ex \<and>
            console (snd r) = console st @ [Broadcasting EXECUTE (Some SubCOMPLETED), Broadcasting APPLY None,
                                            Broadcasting CONFIRM None] \<and>
            received_last CONFIRM (snd r)"
          using 2 Inr True f by (intro exI[of _ res] exI[of _ t]) (simp add: r rs)
        then show ?case by blast
      qed
    qed
  qed
qed

lemma startMigration_cases:
  assumes m0: "m0 = migration\<lparr>mig_status := ANNOUNCING, startedAt := now st\<rparr>"
    and ex: "ex = executeMigrations beh (mig_sql migration) (executor st)"
    and r: "r = startMigration migration beh sch st"
  shows "fst r = Inr () \<and>
    ((\<exists>k n. currentMigration (snd r) = Some (m0\<lparr>mig_status := FAILED\<rparr>) \<and>
         executor (snd r) = executor st \<and>
         console (snd r) = console st @ [Broadcasting ANNOUNCE None,
           RollingBack (Caught (Timeout k n ANNOUNCE)), Broadcasting ROLLBACK None] \<and>
         received_last ROLLBACK (snd r)) \<or>
     (\<exists>e. fst ex = Inl e \<and> currentMigration (snd r) = Some (m0\<lparr>mig_status := FAILED\<rparr>) \<and>
         executor (snd r) = snd ex \<and>
         console (snd r) = console st @ [Broadcasting ANNOUNCE None, Broadcasting EXECUTE (Some SubRUNNING),
           RollingBack (Caught (DbError e)), Broadcasting ROLLBACK None] \<and>
         received_last ROLLBACK (snd r)) \<or>
     (\<exists>res. fst ex = Inr res \<and> \<not> success res \<and>
         currentMigration (snd r) = Some (m0\<lparr>mig_status := FAILED\<rparr>) \<and>
         executor (snd r) = snd ex \<and>
         console (snd r) = console st @ [Broadcasting ANNOUNCE None, Broadcasting EXECUTE (Some SubRUNNING),
           RollingBack (ExecutionFailed (error res)), Broadcasting ROLLBACK None] \<and>
         received_last ROLLBACK (snd r)) \<or>
     (\<exists>res k n. fst ex = Inr res \<and> success res \<and>
         currentMigration (snd r) = Some (m0\<lparr>mig_status := FAILED\<rparr>) \<and>
         executor (snd r) = snd ex \<and>
         console (snd r) = console st @ [Broadcasting ANNOUNCE None, Broadcasting EXECUTE (Some SubRUNNING),
           Broadcasting EXECUTE (Some SubCOMPLETED), Broadcasting APPLY None,
           RollingBack (Caught (Timeout k n APPLY)), Broadcasting ROLLBACK None] \<and>
         received_last ROLLBACK (snd r)) \<or>
     (\<exists>res t. fst ex = Inr res \<and> success res \<and>
         currentMigration (snd r) = Some (m0\<lparr>mig_status := COMPLETED, completedAt := Some t\<rparr>) \<and>
         executor (snd r) = snd ex \<and>
         console (snd r) = console st @ [Broadcasting ANNOUNCE None, Broadcasting EXECUTE (Some SubRUNNING),
           Broadcasting EXECUTE (Some SubCOMPLETED), Broadcasting APPLY None, Broadcasting CONFIRM None] \<and>
         received_last CONFIRM (snd r)))"
proof -
  define st0 where "st0 = st\<lparr>currentMigration := Some m0\<rparr>"
  have c0: "currentMigration st0 = Some m0" and e0: "executor st0 = executor st"
    and l0: "console st0 = console st"
    by (simp_all add: st0_def)
  define tb where "tb = try_block migration beh sch st0"
  have sm: "r = (case tb of (Inl e, st') \<Rightarrow> rollback (Caught e) st' | (Inr _, st') \<Rightarrow> (Inr (), st'))"
    unfolding r startMigration_def tb_def st0_def m0 by (simp add: Let_def)
  define s1 where "s1 = snd (sendPhase ANNOUNCE None st0)"
  note p1 = sendPhase_ok[OF c0, of ANNOUNCE None, folded s1_def]
  define w where "w = waitForAcknowledgments ANNOUNCE 30000 (announce_slots sch) s1"
  define s2 where "s2 = snd w"
  have p2: "currentMigration s2 = Some m0" "executor s2 = executor st"
    "console s2 = console st @ [Broadcasting ANNOUNCE None]"
    using wait_frame[of ANNOUNCE 30000 "announce_slots sch" s1] p1 e0 l0 by (simp_all add: s2_def w_def)
  have unf: "tb = and_then w (\<lambda>s2.
     and_then (setStatus EXECUTING s2) (\<lambda>s3.
     and_then (sendPhase EXECUTE (Some SubRUNNING) s3) (\<lambda>s4.
     execute_step migration beh sch s4)))"
    unfolding tb_def try_block_def using p1(1) by (simp add: and_then_Inr s1_def w_def)
  from wait_result[of ANNOUNCE 30000 "announce_slots sch" s1]
  consider (ok) "fst w = Inr ()" | (timeout) k n where "fst w = Inl (Timeout k n ANNOUNCE)"
    by (auto simp: w_def)
  then show ?thesis
  proof cases
    case timeout
    then have "tb = (Inl (Timeout k n ANNOUNCE), s2)"
      by (simp add: unf and_then_Inl s2_def)
    then have "r = rollback (Caught (Timeout k n ANNOUNCE)) s2" by (simp add: sm)
    then have re: "r = rollback (Caught (Timeout k n ANNOUNCE)) s2" .
    have "\<exists>k n. currentMigration (snd r) = Some (m0\<lparr>mig_status := FAILED\<rparr>) \<and>
         executor (snd r) = executor st \<and>
         console (snd r) = console st @ [Broadcasting ANNOUNCE None,
           RollingBack (Caught (Timeout k n ANNOUNCE)), Broadcasting ROLLBACK None] \<and>
         received_last ROLLBACK (snd r)"
      using rollback_ok[OF p2(1), of "Caught (Timeout k n ANNOUNCE)"] p2
      by (intro exI[of _ k] exI[of _ n]) (simp add: re)
    moreover have "fst r = Inr ()"
      using rollback_ok(1)[OF p2(1), of "Caught (Timeout k n ANNOUNCE)"] by (simp add: re)
    ultimately show ?thesis by blast
  next
    case ok
    define s3 where "s3 = snd (setStatus EXECUTING s2)"
    note p3 = setStatus_ok[OF p2(1), of EXECUTING, folded s3_def]
    define s4 where "s4 = snd (sendPhase EXECUTE (Some SubRUNNING) s3)"
    note p4 = sendPhase_ok[OF p3(2), of EXECUTE "Some SubRUNNING", folded s4_def]
    have f4: "executor s4 = executor st"
      "console s4 = console st @ [Broadcasting ANNOUNCE None, Broadcasting EXECUTE (Some SubRUNNING)]"
      using p4 p3 p2 by simp_all
    define es where "es = execute_step migration beh sch s4"
    have tbes: "tb = es"
      using ok p3(1) p4(1) by (simp add: unf and_then_Inr s2_def s3_def s4_def es_def)
    have ex4: "ex = executeMigrations beh (mig_sql migration) (executor s4)"
      using ex f4 by simp
    from execute_step_cases[OF p4(2) ex4 es_def] show ?thesis
    proof (elim disjE exE conjE, goal_cases)
      case (1 e)
      then have re: "r = rollback (Caught (DbError e)) (snd es)"
        by (cases es) (simp add: sm tbes)
      have "\<exists>e. fst ex = Inl e \<and> currentMigration (snd r) = Some (m0\<lparr>mig_status := FAILED\<rparr>) \<and>
         executor (snd r) = snd ex \<and>
         console (snd r) = console st @ [Broadcasting ANNOUNCE None, Broadcasting EXECUTE (Some SubRUNNING),
           RollingBack (Caught (DbError e)), Broadcasting ROLLBACK None] \<and>
         received_last ROLLBACK (snd r)"
        using rollback_ok[OF 1(3), of "Caught (DbError e)"] 1 f4 by (intro exI[of _ e]) (simp add: re)
      moreover have "fst r = Inr ()"
        using rollback_ok(1)[OF 1(3), of "Caught (DbError e)"] by (simp add: re)
      ultimately show ?case by blast
    next
      case (2 res)
      then have re: "r = (Inr (), snd es)"
        by (cases es) (simp add: sm tbes)
      have "\<exists>res. fst ex = Inr res \<and> \<not> success res \<and>
         currentMigration (snd r) = Some (m0\<lparr>mig_status := FAILED\<rparr>) \<and>
         executor (snd r) = snd ex \<and>
         console (snd r) = console st @ [Broadcasting ANNOUNCE None, Broadcasting EXECUTE (Some SubRUNNING),
           RollingBack (ExecutionFailed (error res)), Broadcasting ROLLBACK None] \<and>
         received_last ROLLBACK (snd r)"
        using 2 f4 by (intro exI[of _ res]) (simp add: re)
      moreover have "fst r = Inr ()" using re by simp
      ultimately show ?case by blast
    next
      case (3 res k n)
      then have re: "r = rollback (Caught (Timeout k n APPLY)) (snd es)"
        by (cases es) (simp add: sm tbes)
      have "\<exists>res k n. fst ex = Inr res \<and> success res \<and>
         currentMigration (snd r) = Some (m0\<lparr>mig_status := FAILED\<rparr>) \<and>
         executor (snd r) = snd ex \<and>
         console (snd r) = console st @ [Broadcasting ANNOUNCE None, Broadcasting EXECUTE (Some SubRUNNING),
           Broadcasting EXECUTE (Some SubCOMPLETED), Broadcasting APPLY None,
           RollingBack (Caught (Timeout k n APPLY)), Broadcasting ROLLBACK None] \<and>
         received_last ROLLBACK (snd r)"
        using rollback_ok[OF 3(4), of "Caught (Timeout k n APPLY)"] 3 f4
        by (intro exI[of _ res] exI[of _ k] exI[of _ n]) (simp add: re)
      moreover have "fst r = Inr ()"
        using rollback_ok(1)[OF 3(4), of "Caught (Timeout k n APPLY)"] by (simp add: re)
      ultimately show ?case by blast
    next
      case (4 res t)
      then have re: "r = (Inr (), snd es)"
        by (cases es) (simp add: sm tbes)
      have "\<exists>res t. fst ex = Inr res \<and> success res \<and>
         currentMigration (snd r) = Some (m0\<lparr>mig_status := COMPLETED, completedAt := Some t\<rparr>) \<and>
         executor (snd r) = snd ex \<and>
         console (snd r) = console st @ [Broadcasting ANNOUNCE None, Broadcasting EXECUTE (Some SubRUNNING),
           Broadcasting EXECUTE (Some SubCOMPLETED), Broadcasting APPLY None, Broadcasting CONFIRM None] \<and>
         received_last CONFIRM (snd r)"
        using 4 f4 by (intro exI[of _ res] exI[of _ t]) (simp add: re)
      moreover have "fst r = Inr ()" using re by simp
      ultimately show ?case by blast
    qed
  qed
qed


lemma apply_and_confirm_wait:
  fixes sch :: schedule and st :: coordinator
  assumes cm: "currentMigration st = Some m"
  defines "w \<equiv> waitForAcknowledgments APPLY 30000 (apply_slots sch)
                 (snd (sendPhase APPLY None
                    (snd (setStatus APPLYING (snd (sendPhase EXECUTE (Some SubCOMPLETED) st))))))"
  shows "fst w = Inl t \<Longrightarrow> apply_and_confirm sch st = (Inl t, snd w)"
    and "fst w = Inr () \<Longrightarrow> fst (apply_and_confirm sch st) = Inr ()"
    and "currentMigration (snd w) = Some (m\<lparr>mig_status := APPLYING\<rparr>)"
    and "executor (snd w) = executor st"
    and "console (snd w) = console st @ [Broadcasting EXECUTE (Some SubCOMPLETED), Broadcasting APPLY None]"
proof -
  define s1 where "s1 = snd (sendPhase EXECUTE (Some SubCOMPLETED) st)"
  note p1 = sendPhase_ok[OF cm, of EXECUTE "Some SubCOMPLETED", folded s1_def]
  define s2 where "s2 = snd (setStatus APPLYING s1)"
  note p2 = setStatus_ok[OF p1(2), of APPLYING, folded s2_def]
  define s3 where "s3 = snd (sendPhase APPLY None s2)"
  note p3 = sendPhase_ok[OF p2(2), of APPLY None, folded s3_def]
  have w: "w = waitForAcknowledgments APPLY 30000 (apply_slots sch) s3"
    by (simp add: w_def s1_def s2_def s3_def)
  show p4: "currentMigration (snd w) = Some (m\<lparr>mig_status := APPLYING\<rparr>)"
    "executor (snd w) = executor st"
    "console (snd w) = console st @ [Broadcasting EXECUTE (Some SubCOMPLETED), Broadcasting APPLY None]"
    using wait_frame[of APPLY 30000 "apply_slots sch" s3] p3 p2 p1 by (simp_all add: w)
  have unf: "apply_and_confirm sch st =
      and_then w (\<lambda>s4.
      and_then (setStatus COMPLETED s4) (\<lambda>s5.
      and_then (setCompletedAt s5) (\<lambda>s6. sendPhase CONFIRM None s6)))"
    unfolding apply_and_confirm_def
    using p1(1) p2(1) p3(1)
    by (simp add: and_then_Inr s1_def s2_def s3_def w)
  show "apply_and_confirm sch st = (Inl t, snd w)" if "fst w = Inl t"
    using that by (simp add: unf and_then_Inl)
  show "fst (apply_and_confirm sch st) = Inr ()" if ok: "fst w = Inr ()"
  proof -
    define s5 where "s5 = snd (setStatus COMPLETED (snd w))"
    note p5 = setStatus_ok[OF p4(1), of COMPLETED, folded s5_def]
    define s6 where "s6 = snd (setCompletedAt s5)"
    note p6 = setCompletedAt_ok[OF p5(2), folded s6_def]
    have "apply_and_confirm sch st = sendPhase CONFIRM None s6"
      using ok p5(1) p6(1) by (simp add: unf and_then_Inr s5_def s6_def)
    then show ?thesis using sendPhase_ok(1)[OF p6(2), of CONFIRM None] by simp
  qed
qed

lemma startMigration_cause:
  defines "m0 \<equiv> \<lambda>migration st. migration\<lparr>mig_status := FAILED, startedAt := now st\<rparr>"
  shows "fst (announce_wait migration sch st) = Inl t \<Longrightarrow>
           currentMigration (snd (startMigration migration beh sch st)) = Some (m0 migration st) \<and>
           console (snd (startMigration migration beh sch st)) =
             console st @ [Broadcasting ANNOUNCE None, RollingBack (Caught t), Broadcasting ROLLBACK None]"
    and "fst (announce_wait migration sch st) = Inr () \<Longrightarrow>
         fst (executeMigrations beh (mig_sql migration) (executor st)) = Inl e \<Longrightarrow>
           currentMigration (snd (startMigration migration beh sch st)) = Some (m0 migration st) \<and>
           console (snd (startMigration migration beh sch st)) =
             console st @ [Broadcasting ANNOUNCE None, Broadcasting EXECUTE (Some SubRUNNING),
               RollingBack (Caught (DbError e)), Broadcasting ROLLBACK None]"
    and "fst (announce_wait migration sch st) = Inr () \<Longrightarrow>
         fst (executeMigrations beh (mig_sql migration) (executor st)) = Inr res \<Longrightarrow> \<not> success res \<Longrightarrow>
           currentMigration (snd (startMigration migration beh sch st)) = Some (m0 migration st) \<and>
           console (snd (startMigration migration beh sch st)) =
             console st @ [Broadcasting ANNOUNCE None, Broadcasting EXECUTE (Some SubRUNNING),
               RollingBack (ExecutionFailed (error res)), Broadcasting ROLLBACK None]"
    and "fst (announce_wait migration sch st) = Inr () \<Longrightarrow>
         fst (executeMigrations beh (mig_sql migration) (executor st)) = Inr res \<Longrightarrow> success res \<Longrightarrow>
         fst (apply_wait migration beh sch st) = Inl t \<Longrightarrow>
           currentMigration (snd (startMigration migration beh sch st)) = Some (m0 migration st) \<and>
           console (snd (startMigration migration beh sch st)) =
             console st @ [Broadcasting ANNOUNCE None, Broadcasting EXECUTE (Some SubRUNNING),
               Broadcasting EXECUTE (Some SubCOMPLETED), Broadcasting APPLY None,
               RollingBack (Caught t), Broadcasting ROLLBACK None]"
    and "fst (announce_wait migration sch st) = Inr () \<Longrightarrow>
         fst (executeMigrations beh (mig_sql migration) (executor st)) = Inr res \<Longrightarrow> success res \<Longrightarrow>
         fst (apply_wait migration beh sch st) = Inr () \<Longrightarrow>
           map_option mig_status (currentMigration (snd (startMigration migration beh sch st))) =
             Some COMPLETED"
proof -
  define ma where "ma = migration\<lparr>mig_status := ANNOUNCING, startedAt := now st\<rparr>"
  have mf: "ma\<lparr>mig_status := FAILED\<rparr> = m0 migration st" by (simp add: ma_def m0_def)
  define st0 where "st0 = st\<lparr>currentMigration := Some ma\<rparr>"
  have c0: "currentMigration st0 = Some ma" and e0: "executor st0 = executor st"
    and l0: "console st0 = console st"
    by (simp_all add: st0_def)
  define r where "r = startMigration migration beh sch st"
  define tb where "tb = try_block migration beh sch st0"
  have sm: "r = (case tb of (Inl e, st') \<Rightarrow> rollback (Caught e) st' | (Inr _, st') \<Rightarrow> (Inr (), st'))"
    unfolding r_def startMigration_def tb_def st0_def ma_def by (simp add: Let_def)
  define s1 where "s1 = snd (sendPhase ANNOUNCE None st0)"
  have s1a: "s1 = announced migration st" by (simp add: s1_def announced_def st0_def ma_def)
  note p1 = sendPhase_ok[OF c0, of ANNOUNCE None, folded s1_def]
  define w where "w = announce_wait migration sch st"
  have ww: "w = waitForAcknowledgments ANNOUNCE 30000 (announce_slots sch) s1"
    by (simp add: w_def announce_wait_def s1a)
  define s2 where "s2 = snd w"
  have p2: "currentMigration s2 = Some ma" "executor s2 = executor st"
    "console s2 = console st @ [Broadcasting ANNOUNCE None]"
    using wait_frame[of ANNOUNCE 30000 "announce_slots sch" s1] p1 e0 l0 by (simp_all add: s2_def ww)
  have unf: "tb = and_then w (\<lambda>s2.
     and_then (setStatus EXECUTING s2) (\<lambda>s3.
     and_then (sendPhase EXECUTE (Some SubRUNNING) s3) (\<lambda>s4.
     execute_step migration beh sch s4)))"
    unfolding tb_def try_block_def using p1(1) by (simp add: and_then_Inr s1_def ww)
  show "currentMigration (snd (startMigration migration beh sch st)) = Some (m0 migration st) \<and>
           console (snd (startMigration migration beh sch st)) =
             console st @ [Broadcasting ANNOUNCE None, RollingBack (Caught t), Broadcasting ROLLBACK None]"
    if "fst (announce_wait migration sch st) = Inl t"
  proof -
    from that have "tb = (Inl t, s2)" by (simp add: unf and_then_Inl s2_def w_def)
    then have re: "r = rollback (Caught t) s2" by (simp add: sm)
    from rollback_ok[OF p2(1), of "Caught t"] p2 show ?thesis
      by (simp add: re[unfolded r_def] mf)
  qed
  define s3 where "s3 = snd (setStatus EXECUTING s2)"
  note p3 = setStatus_ok[OF p2(1), of EXECUTING, folded s3_def]
  define s4 where "s4 = snd (sendPhase EXECUTE (Some SubRUNNING) s3)"
  note p4 = sendPhase_ok[OF p3(2), of EXECUTE "Some SubRUNNING", folded s4_def]
  have s4e: "s4 = executing migration sch st"
    by (simp add: s4_def s3_def s2_def w_def executing_def)
  have f4: "executor s4 = executor st"
    "console s4 = console st @ [Broadcasting ANNOUNCE None, Broadcasting EXECUTE (Some SubRUNNING)]"
    using p4 p3 p2 by simp_all
  define ex where "ex = executeMigrations beh (mig_sql migration) (executor st)"
  define es where "es = execute_step migration beh sch s4"
  have tbes: "tb = es" if "fst (announce_wait migration sch st) = Inr ()"
    using that p3(1) p4(1) by (simp add: unf and_then_Inr s2_def s3_def s4_def es_def w_def)
  define st' where "st' = handleEvents (execute_events sch) (s4\<lparr>executor := snd ex\<rparr>)"
  have f: "currentMigration st' = Some (ma\<lparr>mig_status := EXECUTING\<rparr>)" "console st' = console s4"
    using handleEvents_frame[of "execute_events sch" "s4\<lparr>executor := snd ex\<rparr>"] p4(2)
    by (simp_all add: st'_def)
  have fm: "ma\<lparr>mig_status := EXECUTING, mig_status := FAILED\<rparr> = m0 migration st"
    "ma\<lparr>mig_status := EXECUTING, mig_status := APPLYING, mig_status := FAILED\<rparr> = m0 migration st"
    by (simp_all add: ma_def m0_def)
  have ex4: "executeMigrations beh (mig_sql migration) (executor s4) = ex"
    by (simp add: ex_def f4)
  show "currentMigration (snd (startMigration migration beh sch st)) = Some (m0 migration st) \<and>
           console (snd (startMigration migration beh sch st)) =
             console st @ [Broadcasting ANNOUNCE None, Broadcasting EXECUTE (Some SubRUNNING),
               RollingBack (Caught (DbError e)), Broadcasting ROLLBACK None]"
    if ok: "fst (announce_wait migration sch st) = Inr ()"
      and x: "fst (executeMigrations beh (mig_sql migration) (executor st)) = Inl e"
  proof -
    from x have "es = (Inl (DbError e), st')"
      unfolding es_def execute_step_def ex4 st'_def by (cases ex) (simp add: ex_def)
    then have re: "r = rollback (Caught (DbError e)) st'" by (simp add: sm tbes[OF ok])
    from rollback_ok[OF f(1), of "Caught (DbError e)"] f f4 show ?thesis
      by (simp add: re[unfolded r_def] fm mf)
  qed
  show "currentMigration (snd (startMigration migration beh sch st)) = Some (m0 migration st) \<and>
           console (snd (startMigration migration beh sch st)) =
             console st @ [Broadcasting ANNOUNCE None, Broadcasting EXECUTE (Some SubRUNNING),
               RollingBack (ExecutionFailed (error res)), Broadcasting ROLLBACK None]"
    if ok: "fst (announce_wait migration sch st) = Inr ()"
      and x: "fst (executeMigrations beh (mig_sql migration) (executor st)) = Inr res"
      and ns: "\<not> success res"
  proof -
    from x ns have e: "es = rollback (ExecutionFailed (error res)) st'"
      unfolding es_def execute_step_def ex4 st'_def by (cases ex) (simp add: ex_def Let_def)
    note rb = rollback_ok[OF f(1), of "ExecutionFailed (error res)"]
    have re: "r = (Inr (), snd es)"
      using rb(1) by (cases es) (simp add: sm tbes[OF ok] e)
    from rb f f4 show ?thesis
      by (simp add: re[unfolded r_def] e fm mf)
  qed
  define w2 where "w2 = apply_wait migration beh sch st"
  have w2w: "w2 = waitForAcknowledgments APPLY 30000 (apply_slots sch)
                 (snd (sendPhase APPLY None
                    (snd (setStatus APPLYING (snd (sendPhase EXECUTE (Some SubCOMPLETED) st'))))))"
    by (simp add: w2_def apply_wait_def Let_def s4e[symmetric] ex4 st'_def)
  note ac = apply_and_confirm_wait[OF f(1), of sch, folded w2w]
  show "currentMigration (snd (startMigration migration beh sch st)) = Some (m0 migration st) \<and>
           console (snd (startMigration migration beh sch st)) =
             console st @ [Broadcasting ANNOUNCE None, Broadcasting EXECUTE (Some SubRUNNING),
               Broadcasting EXECUTE (Some SubCOMPLETED), Broadcasting APPLY None,
               RollingBack (Caught t), Broadcasting ROLLBACK None]"
    if ok: "fst (announce_wait migration sch st) = Inr ()"
      and x: "fst (executeMigrations beh (mig_sql migration) (executor st)) = Inr res"
      and s: "success res"
      and t: "fst (apply_wait migration beh sch st) = Inl t"
  proof -
    from x s have e: "es = apply_and_confirm sch st'"
      unfolding es_def execute_step_def ex4 st'_def by (cases ex) (simp add: ex_def Let_def)
    have "es = (Inl t, snd w2)" using ac(1)[of t] t by (simp add: e w2_def)
    then have re: "r = rollback (Caught t) (snd w2)" by (simp add: sm tbes[OF ok])
    from rollback_ok[OF ac(3), of "Caught t"] ac(5) f f4 show ?thesis
      by (simp add: re[unfolded r_def] fm mf)
  qed
  show "map_option mig_status (currentMigration (snd (startMigration migration beh sch st))) =
             Some COMPLETED"
    if ok: "fst (announce_wait migration sch st) = Inr ()"
      and x: "fst (executeMigrations beh (mig_sql migration) (executor st)) = Inr res"
      and s: "success res"
      and t: "fst (apply_wait migration beh sch st) = Inr ()"
  proof -
    from x s have e: "es = apply_and_confirm sch st'"
      unfolding es_def execute_step_def ex4 st'_def by (cases ex) (simp add: ex_def Let_def)
    have fe: "fst es = Inr ()" using ac(2) t by (simp add: e w2_def)
    then have re: "r = (Inr (), snd es)" by (cases es) (simp add: sm tbes[OF ok])
    from apply_and_confirm_cases[OF f(1), of sch] fe
    have "map_option mig_status (currentMigration (snd es)) = Some COMPLETED"
      by (auto simp: e)
    then show ?thesis by (simp add: re[unfolded r_def])
  qed
qed


section \<open>Evaluating the example scenarios\<close>

lemmas scenario_defs =
  idle_def three_apps_def acknowledge_def demo_migration_def demo_sql_def fresh_db_def healthy_db_def
  rejecting_def sql_command_def all_acknowledge_def

lemmas run_defs =
  startMigration_def try_block_def execute_step_def apply_and_confirm_def and_then_def
  sendPhase_def setStatus_def setCompletedAt_def rollback_def broadcast_def waitForAcknowledgments_def
  executeMigrations_def transaction_body_def client_query_def client_release_def db_apply_def
  handleEvents_def handleConnection_def handleAcknowledgment_def handleClose_def
  quorum_def ackCount_def elapse_def fcard_finsert_if fmmap_fmupd fmdrop_fmupd

lemmas poll_eval = pollLoop_continue pollLoop_resolve pollLoop_timeout pollLoop_idle

lemma three_apps_fields:
  "executor three_apps = fresh_db" "console three_apps = []" "now three_apps = 0"
  "currentMigration three_apps = None"
  by (simp_all add: three_apps_def idle_def handleEvents_def handleConnection_def)

lemma idle_fields:
  "executor idle = fresh_db" "console idle = []" "now idle = 0" "apps idle = fmempty"
  by (simp_all add: idle_def)

lemma demo_migration_fields:
  "mig_sql demo_migration = demo_sql"
  "demo_migration\<lparr>mig_status := s, startedAt := 0\<rparr> = demo_migration\<lparr>mig_status := s\<rparr>"
  by (simp_all add: demo_migration_def)

lemma three_apps_announced:
  "fst (waitForAcknowledgments ANNOUNCE 30000 (announce_slots two_acknowledge_announce)
          (announced demo_migration three_apps)) = Inl (Timeout 2 3 ANNOUNCE)"
  by (simp add: scenario_defs two_acknowledge_announce_def announced_def run_defs pollLoop_continue pollLoop_idle)

lemma scenario_A_completed:
  "map_option mig_status (currentMigration (snd (startMigration demo_migration healthy_db all_acknowledge three_apps)))
     = Some COMPLETED"
  by (simp add: scenario_defs run_defs poll_eval)

lemma scenario_C_failed:
  "map_option mig_status
     (currentMigration (snd (startMigration demo_migration (rejecting (demo_sql ! 1) ''duplicate column'')
        all_acknowledge three_apps))) = Some FAILED"
  by (simp add: scenario_defs run_defs poll_eval)

section \<open>Runs of startMigration\<close>

lemma startMigration_announce_timeout:
  assumes "fst (waitForAcknowledgments ANNOUNCE 30000 (announce_slots sch) (announced migration st)) = Inl t"
  shows "startMigration migration beh sch st =
           rollback (Caught t) (snd (waitForAcknowledgments ANNOUNCE 30000 (announce_slots sch) (announced migration st)))"
proof -
  define st0 where "st0 = st\<lparr>currentMigration := Some (migration\<lparr>mig_status := ANNOUNCING, startedAt := now st\<rparr>)\<rparr>"
  have c0: "currentMigration st0 = Some (migration\<lparr>mig_status := ANNOUNCING, startedAt := now st\<rparr>)"
    by (simp add: st0_def)
  have a: "announced migration st = snd (sendPhase ANNOUNCE None st0)"
    by (simp add: announced_def st0_def)
  define w where "w = waitForAcknowledgments ANNOUNCE 30000 (announce_slots sch) (announced migration st)"
  have "try_block migration beh sch st0 = (Inl t, snd w)"
    unfolding try_block_def using sendPhase_ok(1)[OF c0, of ANNOUNCE None] assms
    by (simp add: and_then_Inr and_then_Inl a[symmetric] w_def)
  then show ?thesis
    by (simp add: startMigration_def st0_def[symmetric] w_def)
qed

text \<open>
  C5. For every run of \<^verbatim>\<open>startMigration\<close> in which the ANNOUNCE wait is
  rejected (the timeout fired before a poll saw the quorum), the call returns, the
  migration's status is FAILED, the database is exactly as before the call (the executor
  was never entered), the console shows the ANNOUNCE broadcast, the rollback with the
  timeout as its reason and the ROLLBACK broadcast, and every participant then in
  \<^verbatim>\<open>apps\<close> with an open socket has ROLLBACK as its last message.
\<close>

theorem announce_timeout_fails_without_executing:
  assumes "fst (waitForAcknowledgments ANNOUNCE 30000 (announce_slots sch) (announced migration st)) = Inl t"
  shows "fst (startMigration migration beh sch st) = Inr () \<and>
         map_option mig_status (currentMigration (snd (startMigration migration beh sch st))) = Some FAILED \<and>
         executor (snd (startMigration migration beh sch st)) = executor st \<and>
         console (snd (startMigration migration beh sch st)) =
           console st @ [Broadcasting ANNOUNCE None, RollingBack (Caught t), Broadcasting ROLLBACK None] \<and>
         received_last ROLLBACK (snd (startMigration migration beh sch st))"
proof -
  define m0 where "m0 = migration\<lparr>mig_status := ANNOUNCING, startedAt := now st\<rparr>"
  define st0 where "st0 = st\<lparr>currentMigration := Some m0\<rparr>"
  have c0: "currentMigration st0 = Some m0" by (simp add: st0_def)
  have a: "announced migration st = snd (sendPhase ANNOUNCE None st0)"
    by (simp add: announced_def st0_def m0_def)
  define s2 where "s2 = snd (waitForAcknowledgments ANNOUNCE 30000 (announce_slots sch) (announced migration st))"
  have p2: "currentMigration s2 = Some m0" "executor s2 = executor st"
    "console s2 = console st @ [Broadcasting ANNOUNCE None]"
    using wait_frame[of ANNOUNCE 30000 "announce_slots sch" "announced migration st"]
      sendPhase_ok[OF c0, of ANNOUNCE None]
    by (simp_all add: s2_def a st0_def)
  have r: "startMigration migration beh sch st = rollback (Caught t) s2"
    using startMigration_announce_timeout[OF assms] by (simp add: s2_def)
  show ?thesis
    using rollback_ok[OF p2(1), of "Caught t"] p2 by (simp add: r)
qed

theorem announce_timeout_fails_without_executing_witness:
  "fst (waitForAcknowledgments ANNOUNCE 30000 (announce_slots two_acknowledge_announce)
          (announced demo_migration three_apps)) = Inl (Timeout 2 3 ANNOUNCE) \<and>
   map_option mig_status (currentMigration (snd (startMigration demo_migration healthy_db two_acknowledge_announce three_apps)))
     = Some FAILED \<and>
   invocations (executor (snd (startMigration demo_migration healthy_db two_acknowledge_announce three_apps))) = [] \<and>
   console (snd (startMigration demo_migration healthy_db two_acknowledge_announce three_apps)) =
     [Broadcasting ANNOUNCE None, RollingBack (Caught (Timeout 2 3 ANNOUNCE)), Broadcasting ROLLBACK None] \<and>
   received_last ROLLBACK (snd (startMigration demo_migration healthy_db two_acknowledge_announce three_apps))"
  using announce_timeout_fails_without_executing[OF three_apps_announced, of healthy_db] three_apps_announced
  by (simp add: three_apps_def idle_def fresh_db_def handleEvents_def handleConnection_def)



text \<open>
  C8, as stated, fails on its last part: the migration object has no field for a cause.
  A run that fails because the second statement is rejected and a run that fails because
  the ANNOUNCE wait times out leave the same migration object; the two causes are found
  on the console only.
\<close>

theorem failure_cause_not_on_migration_object:
  "currentMigration (snd (startMigration demo_migration (rejecting (demo_sql ! 1) ''duplicate column'')
        all_acknowledge three_apps)) =
   currentMigration (snd (startMigration demo_migration healthy_db two_acknowledge_announce three_apps)) \<and>
   map_option mig_status
     (currentMigration (snd (startMigration demo_migration healthy_db two_acknowledge_announce three_apps))) =
     Some FAILED \<and>
   RollingBack (ExecutionFailed (Some ''duplicate column'')) \<in>
     set (console (snd (startMigration demo_migration (rejecting (demo_sql ! 1) ''duplicate column'')
        all_acknowledge three_apps))) \<and>
   RollingBack (Caught (Timeout 2 3 ANNOUNCE)) \<in>
     set (console (snd (startMigration demo_migration healthy_db two_acknowledge_announce three_apps)))"
  by (simp add: scenario_defs two_acknowledge_announce_def run_defs poll_eval)


text \<open>
  C8, amended. \<^verbatim>\<open>startMigration\<close> always returns, never throws, and leaves the
  migration COMPLETED or FAILED. When it is FAILED the migration object is the caller's
  migration with the status FAILED and the start date, nothing else; the cause is the
  argument of \<^verbatim>\<open>rollback\<close>, written to the console just before the ROLLBACK
  broadcast, which every open participant has as its last message. That cause is: the
  error the ANNOUNCE wait is rejected with, when it is rejected; otherwise the error the
  executor's call is rejected with, when it is rejected; otherwise the executor's failure
  with the error of its result, when the result is not a success; otherwise the error the
  APPLY wait is rejected with, when it is rejected. In the one remaining case the
  migration is COMPLETED.
\<close>

theorem startMigration_returns_terminal:
  "fst (startMigration migration beh sch st) = Inr () \<and>
   (map_option mig_status (currentMigration (snd (startMigration migration beh sch st))) = Some COMPLETED \<or>
    map_option mig_status (currentMigration (snd (startMigration migration beh sch st))) = Some FAILED) \<and>
   (map_option mig_status (currentMigration (snd (startMigration migration beh sch st))) = Some FAILED \<longrightarrow>
      currentMigration (snd (startMigration migration beh sch st)) =
        Some (migration\<lparr>mig_status := FAILED, startedAt := now st\<rparr>) \<and>
      (\<exists>pre cause. console (snd (startMigration migration beh sch st)) =
         console st @ pre @ [RollingBack cause, Broadcasting ROLLBACK None]) \<and>
      received_last ROLLBACK (snd (startMigration migration beh sch st))) \<and>
   (fst (announce_wait migration sch st) = Inl t \<longrightarrow>
      map_option mig_status (currentMigration (snd (startMigration migration beh sch st))) = Some FAILED \<and>
      console (snd (startMigration migration beh sch st)) =
        console st @ [Broadcasting ANNOUNCE None, RollingBack (Caught t), Broadcasting ROLLBACK None]) \<and>
   (fst (announce_wait migration sch st) = Inr () \<and>
    fst (executeMigrations beh (mig_sql migration) (executor st)) = Inl e \<longrightarrow>
      map_option mig_status (currentMigration (snd (startMigration migration beh sch st))) = Some FAILED \<and>
      console (snd (startMigration migration beh sch st)) =
        console st @ [Broadcasting ANNOUNCE None, Broadcasting EXECUTE (Some SubRUNNING),
          RollingBack (Caught (DbError e)), Broadcasting ROLLBACK None]) \<and>
   (fst (announce_wait migration sch st) = Inr () \<and>
    fst (executeMigrations beh (mig_sql migration) (executor st)) = Inr res \<and> \<not> success res \<longrightarrow>
      map_option mig_status (currentMigration (snd (startMigration migration beh sch st))) = Some FAILED \<and>
      console (snd (startMigration migration beh sch st)) =
        console st @ [Broadcasting ANNOUNCE None, Broadcasting EXECUTE (Some SubRUNNING),
          RollingBack (ExecutionFailed (error res)), Broadcasting ROLLBACK None]) \<and>
   (fst (announce_wait migration sch st) = Inr () \<and>
    fst (executeMigrations beh (mig_sql migration) (executor st)) = Inr res \<and> success res \<and>
    fst (apply_wait migration beh sch st) = Inl t' \<longrightarrow>
      map_option mig_status (currentMigration (snd (startMigration migration beh sch st))) = Some FAILED \<and>
      console (snd (startMigration migration beh sch st)) =
        console st @ [Broadcasting ANNOUNCE None, Broadcasting EXECUTE (Some SubRUNNING),
          Broadcasting EXECUTE (Some SubCOMPLETED), Broadcasting APPLY None,
          RollingBack (Caught t'), Broadcasting ROLLBACK None]) \<and>
   (fst (announce_wait migration sch st) = Inr () \<and>
    fst (executeMigrations beh (mig_sql migration) (executor st)) = Inr res \<and> success res \<and>
    fst (apply_wait migration beh sch st) = Inr () \<longrightarrow>
      map_option mig_status (currentMigration (snd (startMigration migration beh sch st))) = Some COMPLETED)"
proof -
  define r where "r = startMigration migration beh sch st"
  define ex where "ex = executeMigrations beh (mig_sql migration) (executor st)"
  define m0 where "m0 = migration\<lparr>mig_status := ANNOUNCING, startedAt := now st\<rparr>"
  have m0f: "m0\<lparr>mig_status := FAILED\<rparr> = migration\<lparr>mig_status := FAILED, startedAt := now st\<rparr>"
    by (simp add: m0_def)
  have "fst r = Inr () \<and>
   (map_option mig_status (currentMigration (snd r)) = Some COMPLETED \<or>
    map_option mig_status (currentMigration (snd r)) = Some FAILED) \<and>
   (map_option mig_status (currentMigration (snd r)) = Some FAILED \<longrightarrow>
      currentMigration (snd r) = Some (migration\<lparr>mig_status := FAILED, startedAt := now st\<rparr>) \<and>
      (\<exists>pre cause. console (snd r) = console st @ pre @ [RollingBack cause, Broadcasting ROLLBACK None]) \<and>
      received_last ROLLBACK (snd r))"
    using startMigration_cases[OF m0_def ex_def r_def]
  proof (elim conjE disjE exE, goal_cases)
    case (1 k n)
    have "console (snd r) = console st @ [Broadcasting ANNOUNCE None] @
            [RollingBack (Caught (Timeout k n ANNOUNCE)), Broadcasting ROLLBACK None]"
      using 1 by simp
    then have "\<exists>pre cause. console (snd r) = console st @ pre @ [RollingBack cause, Broadcasting ROLLBACK None]"
      by blast
    with 1 show ?case by (simp add: m0f)
  next
    case (2 e)
    have "console (snd r) = console st @ [Broadcasting ANNOUNCE None, Broadcasting EXECUTE (Some SubRUNNING)] @
            [RollingBack (Caught (DbError e)), Broadcasting ROLLBACK None]"
      using 2 by simp
    then have "\<exists>pre cause. console (snd r) = console st @ pre @ [RollingBack cause, Broadcasting ROLLBACK None]"
      by blast
    with 2 show ?case by (simp add: m0f)
  next
    case (3 res)
    have "console (snd r) = console st @ [Broadcasting ANNOUNCE None, Broadcasting EXECUTE (Some SubRUNNING)] @
            [RollingBack (ExecutionFailed (error res)), Broadcasting ROLLBACK None]"
      using 3 by simp
    then have "\<exists>pre cause. console (snd r) = console st @ pre @ [RollingBack cause, Broadcasting ROLLBACK None]"
      by blast
    with 3 show ?case by (simp add: m0f)
  next
    case (4 res k n)
    have "console (snd r) = console st @ [Broadcasting ANNOUNCE None, Broadcasting EXECUTE (Some SubRUNNING),
            Broadcasting EXECUTE (Some SubCOMPLETED), Broadcasting APPLY None] @
            [RollingBack (Caught (Timeout k n APPLY)), Broadcasting ROLLBACK None]"
      using 4 by simp
    then have "\<exists>pre cause. console (snd r) = console st @ pre @ [RollingBack cause, Broadcasting ROLLBACK None]"
      by blast
    with 4 show ?case by (simp add: m0f)
  next
    case (5 res t)
    then show ?case by simp
  qed
  then have general: "fst (startMigration migration beh sch st) = Inr () \<and>
   (map_option mig_status (currentMigration (snd (startMigration migration beh sch st))) = Some COMPLETED \<or>
    map_option mig_status (currentMigration (snd (startMigration migration beh sch st))) = Some FAILED) \<and>
   (map_option mig_status (currentMigration (snd (startMigration migration beh sch st))) = Some FAILED \<longrightarrow>
      currentMigration (snd (startMigration migration beh sch st)) =
        Some (migration\<lparr>mig_status := FAILED, startedAt := now st\<rparr>) \<and>
      (\<exists>pre cause. console (snd (startMigration migration beh sch st)) =
         console st @ pre @ [RollingBack cause, Broadcasting ROLLBACK None]) \<and>
      received_last ROLLBACK (snd (startMigration migration beh sch st)))"
    by (simp add: r_def)
  have 1: "fst (announce_wait migration sch st) = Inl t \<longrightarrow>
      map_option mig_status (currentMigration (snd (startMigration migration beh sch st))) = Some FAILED \<and>
      console (snd (startMigration migration beh sch st)) =
        console st @ [Broadcasting ANNOUNCE None, RollingBack (Caught t), Broadcasting ROLLBACK None]"
    using startMigration_cause(1)[of migration sch st t beh] by simp
  have 2: "fst (announce_wait migration sch st) = Inr () \<and>
    fst (executeMigrations beh (mig_sql migration) (executor st)) = Inl e \<longrightarrow>
      map_option mig_status (currentMigration (snd (startMigration migration beh sch st))) = Some FAILED \<and>
      console (snd (startMigration migration beh sch st)) =
        console st @ [Broadcasting ANNOUNCE None, Broadcasting EXECUTE (Some SubRUNNING),
          RollingBack (Caught (DbError e)), Broadcasting ROLLBACK None]"
    using startMigration_cause(2)[of migration sch st beh e] by simp
  have 3: "fst (announce_wait migration sch st) = Inr () \<and>
    fst (executeMigrations beh (mig_sql migration) (executor st)) = Inr res \<and> \<not> success res \<longrightarrow>
      map_option mig_status (currentMigration (snd (startMigration migration beh sch st))) = Some FAILED \<and>
      console (snd (startMigration migration beh sch st)) =
        console st @ [Broadcasting ANNOUNCE None, Broadcasting EXECUTE (Some SubRUNNING),
          RollingBack (ExecutionFailed (error res)), Broadcasting ROLLBACK None]"
    using startMigration_cause(3)[of migration sch st beh res] by simp
  have 4: "fst (announce_wait migration sch st) = Inr () \<and>
    fst (executeMigrations beh (mig_sql migration) (executor st)) = Inr res \<and> success res \<and>
    fst (apply_wait migration beh sch st) = Inl t' \<longrightarrow>
      map_option mig_status (currentMigration (snd (startMigration migration beh sch st))) = Some FAILED \<and>
      console (snd (startMigration migration beh sch st)) =
        console st @ [Broadcasting ANNOUNCE None, Broadcasting EXECUTE (Some SubRUNNING),
          Broadcasting EXECUTE (Some SubCOMPLETED), Broadcasting APPLY None,
          RollingBack (Caught t'), Broadcasting ROLLBACK None]"
    using startMigration_cause(4)[of migration sch st beh res t'] by simp
  have 5: "fst (announce_wait migration sch st) = Inr () \<and>
    fst (executeMigrations beh (mig_sql migration) (executor st)) = Inr res \<and> success res \<and>
    fst (apply_wait migration beh sch st) = Inr () \<longrightarrow>
      map_option mig_status (currentMigration (snd (startMigration migration beh sch st))) = Some COMPLETED"
    using startMigration_cause(5)[of migration sch st beh res] by simp
  from general 1 2 3 4 5 show ?thesis by (intro conjI) (elim conjE, assumption)+
qed

theorem startMigration_returns_terminal_witness:
  "console (snd (startMigration demo_migration healthy_db two_acknowledge_announce three_apps)) =
     [Broadcasting ANNOUNCE None, RollingBack (Caught (Timeout 2 3 ANNOUNCE)), Broadcasting ROLLBACK None] \<and>
   console (snd (startMigration demo_migration (healthy_db\<lparr>connect_error := Some ''connection refused''\<rparr>)
        all_acknowledge three_apps)) =
     [Broadcasting ANNOUNCE None, Broadcasting EXECUTE (Some SubRUNNING),
      RollingBack (Caught (DbError ''connection refused'')), Broadcasting ROLLBACK None] \<and>
   console (snd (startMigration demo_migration (rejecting (demo_sql ! 1) ''duplicate column'')
        all_acknowledge three_apps)) =
     [Broadcasting ANNOUNCE None, Broadcasting EXECUTE (Some SubRUNNING),
      RollingBack (ExecutionFailed (Some ''duplicate column'')), Broadcasting ROLLBACK None] \<and>
   console (snd (startMigration demo_migration healthy_db two_acknowledge_apply three_apps)) =
     [Broadcasting ANNOUNCE None, Broadcasting EXECUTE (Some SubRUNNING),
      Broadcasting EXECUTE (Some SubCOMPLETED), Broadcasting APPLY None,
      RollingBack (Caught (Timeout 2 3 APPLY)), Broadcasting ROLLBACK None] \<and>
   map_option mig_status
     (currentMigration (snd (startMigration demo_migration healthy_db all_acknowledge three_apps))) =
     Some COMPLETED \<and>
   fst (startMigration demo_migration (rejecting (demo_sql ! 1) ''duplicate column'') all_acknowledge three_apps)
     = Inr () \<and>
   currentMigration (snd (startMigration demo_migration (rejecting (demo_sql ! 1) ''duplicate column'')
        all_acknowledge three_apps)) = Some (demo_migration\<lparr>mig_status := FAILED\<rparr>) \<and>
   received_last ROLLBACK (snd (startMigration demo_migration (rejecting (demo_sql ! 1) ''duplicate column'')
        all_acknowledge three_apps))"
proof -
  have a1: "fst (announce_wait demo_migration two_acknowledge_announce three_apps) =
      Inl (Timeout 2 3 ANNOUNCE)"
    by (simp add: announce_wait_def scenario_defs two_acknowledge_announce_def announced_def run_defs
        poll_eval)
  have a2: "fst (announce_wait demo_migration all_acknowledge three_apps) = Inr ()"
    by (simp add: announce_wait_def scenario_defs announced_def run_defs poll_eval)
  have a3: "fst (announce_wait demo_migration two_acknowledge_apply three_apps) = Inr ()"
    by (simp add: announce_wait_def scenario_defs two_acknowledge_apply_def announced_def run_defs
        poll_eval)
  have e1: "fst (executeMigrations (healthy_db\<lparr>connect_error := Some ''connection refused''\<rparr>)
      (mig_sql demo_migration) (executor three_apps)) = Inl ''connection refused''"
    by (simp add: three_apps_fields executeMigrations_def healthy_db_def)
  have e2: "fst (executeMigrations (rejecting (demo_sql ! 1) ''duplicate column'')
      (mig_sql demo_migration) (executor three_apps)) =
      Inr \<lparr>success = False, error = Some ''duplicate column''\<rparr>"
    by (simp add: three_apps_fields demo_migration_fields executeMigrations_def transaction_body_def
        client_query_def client_release_def rejecting_def demo_sql_def Let_def)
  have e3: "fst (executeMigrations healthy_db (mig_sql demo_migration) (executor three_apps)) =
      Inr \<lparr>success = True, error = None\<rparr>"
    by (simp add: three_apps_fields demo_migration_fields executeMigrations_def transaction_body_def
        client_query_def client_release_def healthy_db_def demo_sql_def Let_def)
  have w1: "fst (apply_wait demo_migration healthy_db two_acknowledge_apply three_apps) =
      Inl (Timeout 2 3 APPLY)"
    by (simp add: apply_wait_def executing_def announce_wait_def scenario_defs two_acknowledge_apply_def
        announced_def run_defs poll_eval)
  have w2: "fst (apply_wait demo_migration healthy_db all_acknowledge three_apps) = Inr ()"
    by (simp add: apply_wait_def executing_def announce_wait_def scenario_defs announced_def run_defs
        poll_eval)
  from startMigration_returns_terminal[of demo_migration healthy_db two_acknowledge_announce three_apps
      "Timeout 2 3 ANNOUNCE"]
    startMigration_returns_terminal[of demo_migration
      "healthy_db\<lparr>connect_error := Some ''connection refused''\<rparr>" all_acknowledge three_apps _
      "''connection refused''"]
    startMigration_returns_terminal[of demo_migration "rejecting (demo_sql ! 1) ''duplicate column''"
      all_acknowledge three_apps _ _ "\<lparr>success = False, error = Some ''duplicate column''\<rparr>"]
    startMigration_returns_terminal[of demo_migration healthy_db two_acknowledge_apply three_apps _ _
      "\<lparr>success = True, error = None\<rparr>" "Timeout 2 3 APPLY"]
    startMigration_returns_terminal[of demo_migration healthy_db all_acknowledge three_apps _ _
      "\<lparr>success = True, error = None\<rparr>"]
    a1 a2 a3 e1 e2 e3 w1 w2
  show ?thesis
    by (simp add: three_apps_fields demo_migration_fields)
qed

lemma handleEvent_quiet: "quiet e \<Longrightarrow> apps st = fmempty \<Longrightarrow> handleEvent e st = st"
  by (cases e) (simp_all add: handleClose_def)

lemma handleEvents_quiet: "list_all quiet evs \<Longrightarrow> apps st = fmempty \<Longrightarrow> handleEvents evs st = st"
  unfolding handleEvents_def
  by (induction evs) (simp_all add: handleEvent_quiet)

lemma wait_no_participants:
  assumes e: "apps st = fmempty" and q: "list_all quiet (concat slots)" and t: "100 < timeout"
  shows "waitForAcknowledgments phase timeout slots st =
           (Inr (), elapse 100 (st\<lparr>acknowledgments := (acknowledgments st)(phase \<mapsto> {||})\<rparr>))"
proof -
  define st' where "st' = st\<lparr>acknowledgments := (acknowledgments st)(phase \<mapsto> {||})\<rparr>"
  have e': "apps st' = fmempty" using e by (simp add: st'_def)
  have qu: "quorum phase st'" using e by (simp add: quorum_def st'_def)
  obtain evs rest where sl: "pollLoop phase timeout slots st' = pollLoop phase timeout (evs # rest) st'"
    and qe: "list_all quiet evs"
  proof (cases slots)
    case Nil
    then show ?thesis using that[of "[]" "[]"] by (simp add: pollLoop_Nil)
  next
    case (Cons evs rest)
    then show ?thesis using that[of evs rest] q by simp
  qed
  have h: "handleEvents evs st' = st'" using handleEvents_quiet[OF qe e'] .
  show ?thesis
    unfolding waitForAcknowledgments_def st'_def[symmetric] sl
    using pollLoop_resolve[of timeout phase evs st' rest] t qu h by simp
qed

text \<open>
  C10. If no participant is connected when a wait begins and none connects during it,
  the wait succeeds at its first poll, 100 ms after it began, with zero acknowledgments
  against zero participants. If no participant is connected when
  \<^verbatim>\<open>startMigration\<close> is called, no connection is made and no message arrives
  during the run, and the executor reports success, then both waits succeed in this way:
  the call returns, the migration is COMPLETED, the clock has advanced by the two polls
  only, and both acknowledgment sets are still empty.
\<close>

theorem no_participants_completes_immediately:
  assumes e: "apps st = fmempty"
    and q: "list_all quiet (concat (announce_slots sch) @ execute_events sch @ concat (apply_slots sch))"
    and x: "fst (executeMigrations beh (mig_sql migration) (executor st)) = Inr res" and s: "success res"
  shows "waitForAcknowledgments phase 30000 (announce_slots sch) st =
           (Inr (), elapse 100 (st\<lparr>acknowledgments := (acknowledgments st)(phase \<mapsto> {||})\<rparr>)) \<and>
         fst (startMigration migration beh sch st) = Inr () \<and>
         map_option mig_status (currentMigration (snd (startMigration migration beh sch st))) = Some COMPLETED \<and>
         now (snd (startMigration migration beh sch st)) = now st + 200 \<and>
         acknowledgments (snd (startMigration migration beh sch st)) ANNOUNCE = Some {||} \<and>
         acknowledgments (snd (startMigration migration beh sch st)) APPLY = Some {||} \<and>
         apps (snd (startMigration migration beh sch st)) = fmempty"
proof -
  obtain db where ex: "executeMigrations beh (mig_sql migration) (executor st) = (Inr res, db)"
    using x by (cases "executeMigrations beh (mig_sql migration) (executor st)") simp
  have q1: "list_all quiet (concat (announce_slots sch))" and q2: "list_all quiet (execute_events sch)"
    and q3: "list_all quiet (concat (apply_slots sch))"
    using q by simp_all
  have w: "waitForAcknowledgments phase 30000 (announce_slots sch) st =
           (Inr (), elapse 100 (st\<lparr>acknowledgments := (acknowledgments st)(phase \<mapsto> {||})\<rparr>))"
    using wait_no_participants[OF e q1, of 30000 phase] by simp
  have "fst (startMigration migration beh sch st) = Inr () \<and>
         map_option mig_status (currentMigration (snd (startMigration migration beh sch st))) = Some COMPLETED \<and>
         now (snd (startMigration migration beh sch st)) = now st + 200 \<and>
         acknowledgments (snd (startMigration migration beh sch st)) ANNOUNCE = Some {||} \<and>
         acknowledgments (snd (startMigration migration beh sch st)) APPLY = Some {||} \<and>
         apps (snd (startMigration migration beh sch st)) = fmempty"
    using e ex s
    by (simp add: startMigration_def try_block_def execute_step_def apply_and_confirm_def and_then_def
        sendPhase_def setStatus_def setCompletedAt_def broadcast_def
        wait_no_participants[OF _ q1] wait_no_participants[OF _ q3] handleEvents_quiet[OF q2] elapse_def)
  with w show ?thesis by blast
qed

theorem no_participants_completes_immediately_witness:
  "apps idle = fmempty \<and>
   fst (executeMigrations healthy_db (mig_sql demo_migration) (executor idle)) = Inr \<lparr>success = True, error = None\<rparr> \<and>
   fst (waitForAcknowledgments APPLY 30000 (announce_slots nothing_happens) idle) = Inr () \<and>
   map_option mig_status (currentMigration (snd (startMigration demo_migration healthy_db nothing_happens idle)))
     = Some COMPLETED \<and>
   now (snd (startMigration demo_migration healthy_db nothing_happens idle)) = 200 \<and>
   acknowledgments (snd (startMigration demo_migration healthy_db nothing_happens idle)) APPLY = Some {||}"
proof -
  have x: "fst (executeMigrations healthy_db (mig_sql demo_migration) (executor idle)) =
             Inr \<lparr>success = True, error = None\<rparr>"
    by (simp add: scenario_defs run_defs)
  have q: "list_all quiet (concat (announce_slots nothing_happens) @ execute_events nothing_happens @
             concat (apply_slots nothing_happens))"
    by (simp add: nothing_happens_def)
  from no_participants_completes_immediately[OF idle_fields(4) q x, of APPLY] x
  show ?thesis by (simp add: idle_fields)
qed

section \<open>Acknowledgments: what is recorded and what is counted\<close>

lemma handleAcknowledgment_status:
  "handleAcknowledgment appId (message\<lparr>ack_status := s\<rparr>) st = handleAcknowledgment appId message st"
  by (simp add: handleAcknowledgment_def cong: option.case_cong)

lemma handleEvent_with_status: "handleEvent (with_status s e) st = handleEvent e st"
  by (cases e) (simp_all add: handleAcknowledgment_status)

lemma handleEvents_with_status: "handleEvents (map (with_status s) evs) st = handleEvents evs st"
  unfolding handleEvents_def
  by (induction evs arbitrary: st) (simp_all add: handleEvent_with_status)

lemma pollLoop_with_status:
  "pollLoop phase remaining (map (map (with_status s)) slots) st = pollLoop phase remaining slots st"
proof (induction remaining arbitrary: slots st rule: less_induct)
  case (less remaining)
  show ?case
  proof (cases slots)
    case Nil
    then show ?thesis by simp
  next
    case (Cons evs rest)
    define st1 where "st1 = handleEvents evs st"
    have h: "handleEvents (map (with_status s) evs) st = st1"
      by (simp add: handleEvents_with_status st1_def)
    consider "remaining \<le> 100" | "100 < remaining" "quorum phase st1" | "100 < remaining" "\<not> quorum phase st1"
      by linarith
    then show ?thesis
    proof cases
      case 1
      then show ?thesis by (simp add: Cons pollLoop_timeout h st1_def[symmetric])
    next
      case 2
      then show ?thesis by (simp add: Cons pollLoop_resolve h st1_def[symmetric])
    next
      case 3
      then have "remaining - 100 < remaining" by simp
      from less.IH[OF this, of rest "elapse 100 st1"] 3
      show ?thesis by (simp add: Cons pollLoop_continue h st1_def[symmetric])
    qed
  qed
qed

lemma wait_with_status:
  "waitForAcknowledgments phase timeout (map (map (with_status s)) slots) st =
   waitForAcknowledgments phase timeout slots st"
  by (simp add: waitForAcknowledgments_def pollLoop_with_status)

text \<open>
  C9. \<^verbatim>\<open>handleAcknowledgment\<close> never reads the status of the message: an
  acknowledgment with status ERROR has exactly the effect of one with status
  ACKNOWLEDGED. It records the sender in the set of the message's phase and leaves the
  current migration alone, so it cannot fail the migration. A wait, and a whole run of
  \<^verbatim>\<open>startMigration\<close>, come out the same whatever status the acknowledgments
  carry.
\<close>

theorem acknowledgment_status_is_ignored:
  "handleAcknowledgment appId (message\<lparr>ack_status := ERROR\<rparr>) st =
     handleAcknowledgment appId (message\<lparr>ack_status := ACKNOWLEDGED\<rparr>) st \<and>
   currentMigration (handleAcknowledgment appId message st) = currentMigration st \<and>
   recorded appId (ack_phase message) (handleAcknowledgment appId message st) \<and>
   waitForAcknowledgments phase timeout (map (map (with_status s)) slots) st =
     waitForAcknowledgments phase timeout slots st \<and>
   startMigration migration beh (schedule_with_status s sch) st = startMigration migration beh sch st"
proof (intro conjI)
  show "handleAcknowledgment appId (message\<lparr>ack_status := ERROR\<rparr>) st =
     handleAcknowledgment appId (message\<lparr>ack_status := ACKNOWLEDGED\<rparr>) st"
    by (simp add: handleAcknowledgment_status)
  show "currentMigration (handleAcknowledgment appId message st) = currentMigration st"
    by (simp add: handleAcknowledgment_def Let_def)
  show "recorded appId (ack_phase message) (handleAcknowledgment appId message st)"
    by (simp add: handleAcknowledgment_def recorded_def Let_def split: option.splits)
  show "waitForAcknowledgments phase timeout (map (map (with_status s)) slots) st =
     waitForAcknowledgments phase timeout slots st"
    by (rule wait_with_status)
  show "startMigration migration beh (schedule_with_status s sch) st = startMigration migration beh sch st"
    by (simp add: startMigration_def try_block_def execute_step_def apply_and_confirm_def
        schedule_with_status_def wait_with_status handleEvents_with_status
        cong: prod.case_cong sum.case_cong if_cong)
qed

theorem acknowledgment_status_is_ignored_witness:
  "map_option mig_status
     (currentMigration (snd (startMigration demo_migration healthy_db (schedule_with_status ERROR all_acknowledge)
        three_apps))) = Some COMPLETED"
  using acknowledgment_status_is_ignored[where s = ERROR and sch = all_acknowledge and migration = demo_migration
      and beh = healthy_db and st = three_apps]
    scenario_A_completed
  by simp

text \<open>
  C6, as stated, fails: the sets are kept in a map whose key is the phase alone. After
  a first migration (m-1) has failed at APPLY with two acknowledgments recorded, and a
  second migration (m-2) has been made current and announced, the set found under APPLY
  is still the one recorded for m-1; once the third participant has gone, the quorum
  test for APPLY holds in that state on the strength of m-1's acknowledgments.
\<close>

theorem acknowledgments_keyed_by_phase_only:
  "map_option mig_id (currentMigration (announced next_migration after_first_migration)) = Some ''m-2'' \<and>
   map_option mig_id (currentMigration after_first_migration) = Some ''m-1'' \<and>
   acknowledgments after_first_migration APPLY = Some {|''app-2'', ''app-1''|} \<and>
   acknowledgments (announced next_migration after_first_migration) APPLY = Some {|''app-2'', ''app-1''|} \<and>
   quorum APPLY (announced next_migration (handleEvents [Close ''app-3''] after_first_migration))"
  by (simp add: scenario_defs two_acknowledge_apply_def after_first_migration_def next_migration_def
      announced_def run_defs poll_eval)

lemma wait_forgets:
  "waitForAcknowledgments phase timeout slots (st\<lparr>acknowledgments := (acknowledgments st)(phase := stale)\<rparr>) =
   waitForAcknowledgments phase timeout slots st"
  by (simp add: waitForAcknowledgments_def)

text \<open>
  C6, amended. Acknowledgment sets are keyed by the phase alone: recording an
  acknowledgment and testing the quorum do not depend on which migration is current.
  What keeps earlier acknowledgments out of a wait is the reset at its beginning: a wait
  for a phase comes out the same whatever was recorded under that phase before it began.
\<close>

theorem acknowledgments_scoped_by_phase_and_reset:
  "handleAcknowledgment appId message (st\<lparr>currentMigration := m\<rparr>) =
     (handleAcknowledgment appId message st)\<lparr>currentMigration := m\<rparr> \<and>
   quorum phase (st\<lparr>currentMigration := m\<rparr>) = quorum phase st \<and>
   waitForAcknowledgments phase timeout slots (st\<lparr>acknowledgments := (acknowledgments st)(phase := stale)\<rparr>) =
     waitForAcknowledgments phase timeout slots st"
proof (intro conjI)
  show "handleAcknowledgment appId message (st\<lparr>currentMigration := m\<rparr>) =
     (handleAcknowledgment appId message st)\<lparr>currentMigration := m\<rparr>"
    by (simp add: handleAcknowledgment_def Let_def cong: option.case_cong)
  show "quorum phase (st\<lparr>currentMigration := m\<rparr>) = quorum phase st"
    by (simp add: quorum_def cong: option.case_cong)
  show "waitForAcknowledgments phase timeout slots (st\<lparr>acknowledgments := (acknowledgments st)(phase := stale)\<rparr>) =
     waitForAcknowledgments phase timeout slots st"
    by (rule wait_forgets)
qed

theorem acknowledgments_scoped_by_phase_and_reset_witness:
  "fst (waitForAcknowledgments APPLY 30000 (apply_slots all_acknowledge)
          (three_apps\<lparr>acknowledgments := (acknowledgments three_apps)(APPLY := Some {|''app-9''|})\<rparr>)) = Inr ()"
  using acknowledgments_scoped_by_phase_and_reset[where phase = APPLY and timeout = 30000
      and slots = "apply_slots all_acknowledge" and st = three_apps and stale = "Some {|''app-9''|}"]
  by (simp add: scenario_defs run_defs poll_eval)

lemma handleAcknowledgment_records:
  "recorded appId (ack_phase message) (handleAcknowledgment appId message st)"
  by (simp add: handleAcknowledgment_def recorded_def Let_def split: option.splits)

lemma handleEvent_recorded: "recorded a p st \<Longrightarrow> recorded a p (handleEvent e st)"
  by (cases e)
     (auto simp: recorded_def handleConnection_def handleAcknowledgment_def handleClose_def Let_def
           split: option.splits if_splits)

lemma handleEvents_recorded: "recorded a p st \<Longrightarrow> recorded a p (handleEvents evs st)"
  unfolding handleEvents_def
  by (induction evs arbitrary: st) (simp_all add: handleEvent_recorded)

lemma handleEvents_records:
  "Message a m \<in> set evs \<Longrightarrow> recorded a (ack_phase m) (handleEvents evs st)"
proof (induction evs arbitrary: st)
  case Nil
  then show ?case by simp
next
  case (Cons e evs)
  have c: "handleEvents (e # evs) st = handleEvents evs (handleEvent e st)"
    by (simp add: handleEvents_def)
  show ?case
  proof (cases "e = Message a m")
    case True
    then have "recorded a (ack_phase m) (handleEvent e st)"
      by (simp add: handleAcknowledgment_records)
    then show ?thesis by (simp add: c handleEvents_recorded)
  next
    case False
    with Cons.prems have "Message a m \<in> set evs" by simp
    from Cons.IH[OF this] show ?thesis by (simp add: c)
  qed
qed

lemma elapse_recorded: "recorded a p (elapse ms st) = recorded a p st"
  by (simp add: recorded_def elapse_def)

lemma pollLoop_recorded:
  "recorded a p st \<Longrightarrow> recorded a p (snd (pollLoop phase remaining slots st))"
proof (induction remaining arbitrary: slots st rule: less_induct)
  case (less remaining)
  obtain evs rest where sl: "pollLoop phase remaining slots st = pollLoop phase remaining (evs # rest) st"
  proof (cases slots)
    case Nil
    then show ?thesis using that[of "[]" "[]"] by (simp add: pollLoop_Nil)
  next
    case (Cons evs rest)
    then show ?thesis using that[of evs rest] by simp
  qed
  define st1 where "st1 = handleEvents evs st"
  have r1: "recorded a p (elapse ms st1)" for ms
    using less.prems by (simp add: st1_def handleEvents_recorded elapse_recorded)
  consider "remaining \<le> 100" | "100 < remaining" "quorum phase st1" | "100 < remaining" "\<not> quorum phase st1"
    by linarith
  then show ?case
  proof cases
    case 1
    then show ?thesis using r1 by (simp add: sl pollLoop_timeout st1_def[symmetric])
  next
    case 2
    then show ?thesis using r1 by (simp add: sl pollLoop_resolve st1_def[symmetric])
  next
    case 3
    then have "remaining - 100 < remaining" by simp
    from less.IH[OF this r1[of 100], of rest] 3
    show ?thesis by (simp add: sl pollLoop_continue st1_def[symmetric])
  qed
qed

lemma wait_records_first:
  assumes "Message a m \<in> set evs"
  shows "recorded a (ack_phase m) (snd (waitForAcknowledgments (ack_phase m) timeout (evs # rest) st))"
proof -
  define st0 where "st0 = st\<lparr>acknowledgments := (acknowledgments st)(ack_phase m \<mapsto> {||})\<rparr>"
  define st1 where "st1 = handleEvents evs st0"
  have r1: "recorded a (ack_phase m) (elapse ms st1)" for ms
    using handleEvents_records[OF assms, of st0] by (simp add: st1_def elapse_recorded)
  have w: "waitForAcknowledgments (ack_phase m) timeout (evs # rest) st =
             pollLoop (ack_phase m) timeout (evs # rest) st0"
    by (simp add: waitForAcknowledgments_def st0_def)
  consider "timeout \<le> 100" | "100 < timeout" "quorum (ack_phase m) st1"
    | "100 < timeout" "\<not> quorum (ack_phase m) st1"
    by linarith
  then show ?thesis
  proof cases
    case 1
    then show ?thesis using r1 by (simp add: w pollLoop_timeout st1_def[symmetric])
  next
    case 2
    then show ?thesis using r1 by (simp add: w pollLoop_resolve st1_def[symmetric])
  next
    case 3
    then show ?thesis
      using pollLoop_recorded[OF r1[of 100], of "ack_phase m" "timeout - 100" rest]
      by (simp add: w pollLoop_continue st1_def[symmetric])
  qed
qed

lemma wait_recorded_other:
  "p \<noteq> phase \<Longrightarrow> recorded a p st \<Longrightarrow> recorded a p (snd (waitForAcknowledgments phase timeout slots st))"
  unfolding waitForAcknowledgments_def
  by (rule pollLoop_recorded) (simp add: recorded_def)

lemma sendPhase_recorded: "recorded a p st \<Longrightarrow> recorded a p (snd (sendPhase q s st))"
  by (simp add: sendPhase_def broadcast_def recorded_def split: option.splits)

lemma setStatus_recorded: "recorded a p st \<Longrightarrow> recorded a p (snd (setStatus s st))"
  by (simp add: setStatus_def recorded_def split: option.splits)

lemma setCompletedAt_recorded: "recorded a p st \<Longrightarrow> recorded a p (snd (setCompletedAt st))"
  by (simp add: setCompletedAt_def recorded_def split: option.splits)

lemma rollback_recorded: "recorded a p st \<Longrightarrow> recorded a p (snd (rollback r st))"
  unfolding rollback_def by (rule sendPhase_recorded) (simp add: recorded_def)

lemma and_then_recorded:
  "recorded a p (snd r) \<Longrightarrow> (\<And>s. recorded a p s \<Longrightarrow> recorded a p (snd (f s))) \<Longrightarrow>
   recorded a p (snd (and_then r f))"
  by (cases r) (auto simp: and_then_def split: sum.splits)

lemma apply_and_confirm_recorded:
  "p \<noteq> APPLY \<Longrightarrow> recorded a p st \<Longrightarrow> recorded a p (snd (apply_and_confirm sch st))"
  unfolding apply_and_confirm_def
  by (intro and_then_recorded sendPhase_recorded setStatus_recorded setCompletedAt_recorded
        wait_recorded_other)

lemma execute_step_recorded:
  assumes "p \<noteq> APPLY" "recorded a p st"
  shows "recorded a p (snd (execute_step migration beh sch st))"
proof -
  obtain r db where ex: "executeMigrations beh (mig_sql migration) (executor st) = (r, db)"
    by (cases "executeMigrations beh (mig_sql migration) (executor st)")
  have "recorded a p (st\<lparr>executor := db\<rparr>)" using assms(2) by (simp add: recorded_def)
  then have h: "recorded a p (handleEvents (execute_events sch) (st\<lparr>executor := db\<rparr>))"
    by (rule handleEvents_recorded)
  show ?thesis
    using h apply_and_confirm_recorded[OF assms(1) h] rollback_recorded[OF h]
    by (cases r) (simp_all add: execute_step_def ex Let_def)
qed

lemma startMigration_records_announce:
  assumes sl: "announce_slots sch = evs # rest" and m: "Message a m \<in> set evs" and p: "ack_phase m = ANNOUNCE"
  shows "recorded a ANNOUNCE (snd (startMigration migration beh sch st))"
proof -
  define st0 where "st0 = st\<lparr>currentMigration := Some (migration\<lparr>mig_status := ANNOUNCING, startedAt := now st\<rparr>)\<rparr>"
  have w: "recorded a ANNOUNCE (snd (waitForAcknowledgments ANNOUNCE 30000 (announce_slots sch) s))" for s
    using wait_records_first[OF m, of 30000 rest s] by (simp add: sl p)
  have c0: "currentMigration st0 = Some (migration\<lparr>mig_status := ANNOUNCING, startedAt := now st\<rparr>)"
    by (simp add: st0_def)
  define s1 where "s1 = snd (sendPhase ANNOUNCE None st0)"
  have unf: "try_block migration beh sch st0 =
     and_then (waitForAcknowledgments ANNOUNCE 30000 (announce_slots sch) s1) (\<lambda>s2.
     and_then (setStatus EXECUTING s2) (\<lambda>s3.
     and_then (sendPhase EXECUTE (Some SubRUNNING) s3) (\<lambda>s4.
     execute_step migration beh sch s4)))"
    unfolding try_block_def using sendPhase_ok(1)[OF c0, of ANNOUNCE None]
    by (simp add: and_then_Inr s1_def)
  have tb: "recorded a ANNOUNCE (snd (try_block migration beh sch st0))"
    unfolding unf
    by (intro and_then_recorded setStatus_recorded sendPhase_recorded execute_step_recorded w) simp_all
  obtain r st' where t: "try_block migration beh sch st0 = (r, st')"
    by (cases "try_block migration beh sch st0")
  show ?thesis
    using tb t rollback_recorded[of a ANNOUNCE st']
    by (cases r) (simp_all add: startMigration_def st0_def[symmetric])
qed

text \<open>
  C7, as stated, fails on the order: \<^verbatim>\<open>sendPhase\<close> comes first and the reset is
  the first thing \<^verbatim>\<open>waitForAcknowledgments\<close> does. When the second migration has
  been announced, every participant already has its ANNOUNCE message while the set for
  ANNOUNCE still holds the three acknowledgments of the first migration; the wait that
  follows empties it.
\<close>

theorem broadcast_precedes_reset:
  "map_option (last \<circ> sent) (fmlookup (apps (announced next_migration after_first_migration)) ''app-1'') =
     Some (PHASE \<lparr>pm_phase = ANNOUNCE, pm_migrationId = ''m-2'', pm_status = None, pm_timestamp = 30100\<rparr>) \<and>
   acknowledgments (announced next_migration after_first_migration) ANNOUNCE =
     Some {|''app-3'', ''app-2'', ''app-1''|} \<and>
   acknowledgments
     (snd (waitForAcknowledgments ANNOUNCE 30000 [] (announced next_migration after_first_migration))) ANNOUNCE =
     Some {||}"
  by (simp add: scenario_defs two_acknowledge_apply_def after_first_migration_def next_migration_def
      announced_def run_defs poll_eval)

text \<open>
  C7, amended. The broadcast leaves the acknowledgment sets as they are, and the wait
  that follows it in the same synchronous step begins by emptying the set of its phase,
  before any event is handled. An acknowledgment of the phase handled in the first
  interval of the wait, the earliest moment a message can arrive, is in the set when the
  wait ends; for ANNOUNCE it is still there when \<^verbatim>\<open>startMigration\<close> returns.
\<close>

theorem acknowledgment_in_first_interval_is_kept:
  "(Message appId message \<in> set evs \<longrightarrow>
      recorded appId (ack_phase message)
        (snd (waitForAcknowledgments (ack_phase message) timeout (evs # rest) st))) \<and>
   (announce_slots sch = evs # rest \<and> Message appId message \<in> set evs \<and> ack_phase message = ANNOUNCE \<longrightarrow>
      recorded appId ANNOUNCE (snd (startMigration migration beh sch st))) \<and>
   acknowledgments (snd (sendPhase phase status st)) = acknowledgments st \<and>
   waitForAcknowledgments phase timeout slots (st\<lparr>acknowledgments := (acknowledgments st)(phase \<mapsto> {||})\<rparr>) =
     waitForAcknowledgments phase timeout slots st"
proof (intro conjI impI)
  assume "Message appId message \<in> set evs"
  then show "recorded appId (ack_phase message)
        (snd (waitForAcknowledgments (ack_phase message) timeout (evs # rest) st))"
    by (rule wait_records_first)
next
  assume "announce_slots sch = evs # rest \<and> Message appId message \<in> set evs \<and> ack_phase message = ANNOUNCE"
  then show "recorded appId ANNOUNCE (snd (startMigration migration beh sch st))"
    using startMigration_records_announce[of sch evs rest appId message] by simp
next
  show "acknowledgments (snd (sendPhase phase status st)) = acknowledgments st"
    by (simp add: sendPhase_def broadcast_def split: option.splits)
next
  show "waitForAcknowledgments phase timeout slots (st\<lparr>acknowledgments := (acknowledgments st)(phase \<mapsto> {||})\<rparr>) =
     waitForAcknowledgments phase timeout slots st"
    by (simp add: waitForAcknowledgments_def)
qed

theorem acknowledgment_in_first_interval_is_kept_witness:
  "acknowledge ''app-1'' ANNOUNCE \<in> set (hd (announce_slots all_acknowledge)) \<and>
   recorded ''app-1'' ANNOUNCE
     (snd (waitForAcknowledgments ANNOUNCE 30000 (announce_slots all_acknowledge) (announced demo_migration three_apps))) \<and>
   recorded ''app-1'' ANNOUNCE (snd (startMigration demo_migration healthy_db all_acknowledge three_apps))"
  using acknowledgment_in_first_interval_is_kept[where appId = "''app-1''"
      and message = "\<lparr>ack_phase = ANNOUNCE, ack_status = ACKNOWLEDGED, ack_appId = ''app-1'', ack_error = None\<rparr>"
      and evs = "hd (announce_slots all_acknowledge)" and rest = "[]" and sch = all_acknowledge
      and timeout = 30000 and st = "announced demo_migration three_apps"]
    acknowledgment_in_first_interval_is_kept[where appId = "''app-1''"
      and message = "\<lparr>ack_phase = ANNOUNCE, ack_status = ACKNOWLEDGED, ack_appId = ''app-1'', ack_error = None\<rparr>"
      and evs = "hd (announce_slots all_acknowledge)" and rest = "[]" and sch = all_acknowledge
      and st = three_apps and migration = demo_migration and beh = healthy_db]
  by (simp add: all_acknowledge_def acknowledge_def)

section \<open>The required count of a wait\<close>

lemma handleAcknowledgment_known:
  "acknowledgments st p = Some S \<Longrightarrow> ack_phase message = p \<Longrightarrow>
   handleAcknowledgment appId message st = st\<lparr>acknowledgments := (acknowledgments st)(p \<mapsto> finsert appId S)\<rparr>"
  by (simp add: handleAcknowledgment_def)

lemma handleEvents_Cons: "handleEvents (e # evs) st = handleEvents evs (handleEvent e st)"
  by (simp add: handleEvents_def)

lemma handleEvents_acknowledge:
  "acknowledgments st p = Some S \<Longrightarrow>
   handleEvents (map (\<lambda>a. acknowledge a p) as) st =
     st\<lparr>acknowledgments := (acknowledgments st)(p \<mapsto> S |\<union>| fset_of_list as)\<rparr>"
proof (induction as arbitrary: S st)
  case Nil
  then have "(acknowledgments st)(p \<mapsto> S) = acknowledgments st" by (simp add: fun_upd_idem)
  then show ?case by (simp add: handleEvents_Nil)
next
  case (Cons a as)
  define st1 where "st1 = st\<lparr>acknowledgments := (acknowledgments st)(p \<mapsto> finsert a S)\<rparr>"
  have h: "handleEvent (acknowledge a p) st = st1"
    using handleAcknowledgment_known[OF Cons.prems, of _ a] by (simp add: acknowledge_def st1_def)
  have a1: "acknowledgments st1 p = Some (finsert a S)" by (simp add: st1_def)
  have "handleEvents (map (\<lambda>a. acknowledge a p) (a # as)) st =
          handleEvents (map (\<lambda>a. acknowledge a p) as) st1"
    by (simp add: handleEvents_Cons h)
  also have "\<dots> = st1\<lparr>acknowledgments := (acknowledgments st1)(p \<mapsto> finsert a S |\<union>| fset_of_list as)\<rparr>"
    by (rule Cons.IH[OF a1])
  also have "\<dots> = st\<lparr>acknowledgments := (acknowledgments st)(p \<mapsto> S |\<union>| fset_of_list (a # as))\<rparr>"
    by (simp add: st1_def)
  finally show ?case .
qed

lemma elapse_elapse: "elapse a (elapse b st) = elapse (b + a) st"
  by (simp add: elapse_def)

lemma three_apps_dom: "fmdom (apps three_apps) = {|''app-1'', ''app-2'', ''app-3''|}"
  by (auto simp: three_apps_def idle_def handleEvents_def handleConnection_def)

lemma handleEvents_append: "handleEvents (xs @ ys) st = handleEvents ys (handleEvents xs st)"
  by (simp add: handleEvents_def)

lemma handleEvent_elapse: "handleEvent e (elapse ms st) = elapse ms (handleEvent e st)"
  by (cases e) (simp_all add: elapse_def handleConnection_def handleAcknowledgment_def handleClose_def Let_def
      split: option.splits)

lemma handleEvents_elapse: "handleEvents evs (elapse ms st) = elapse ms (handleEvents evs st)"
  by (induction evs arbitrary: st) (simp_all add: handleEvents_Nil handleEvents_Cons handleEvent_elapse)

lemma handleEvents_acknowledgers:
  "acknowledgments st p = Some S \<Longrightarrow>
   acknowledgments (handleEvents evs st) p = Some (S |\<union>| acknowledgers p evs)"
proof (induction evs arbitrary: st S)
  case Nil
  then show ?case by (simp add: handleEvents_Nil)
next
  case (Cons e evs)
  show ?case
  proof (cases e)
    case (Message a m)
    show ?thesis
    proof (cases "ack_phase m = p")
      case True
      have "acknowledgments (handleEvent e st) p = Some (finsert a S)"
        using Cons.prems True Message by (simp add: handleAcknowledgment_def)
      from Cons.IH[OF this] True Message show ?thesis by (simp add: handleEvents_Cons)
    next
      case False
      have "acknowledgments (handleEvent e st) p = Some S"
        using Cons.prems False Message by (simp add: handleAcknowledgment_def Let_def split: option.splits)
      from Cons.IH[OF this] False Message show ?thesis by (simp add: handleEvents_Cons)
    qed
  next
    case (Connection a)
    have "acknowledgments (handleEvent e st) p = Some S"
      using Cons.prems Connection by (simp add: handleConnection_def)
    from Cons.IH[OF this] Connection show ?thesis by (simp add: handleEvents_Cons)
  next
    case (Close a)
    have "acknowledgments (handleEvent e st) p = Some S"
      using Cons.prems Close by (simp add: handleClose_def)
    from Cons.IH[OF this] Close show ?thesis by (simp add: handleEvents_Cons)
  next
    case (ReadyState a rs)
    have "acknowledgments (handleEvent e st) p = Some S"
      using Cons.prems ReadyState by simp
    from Cons.IH[OF this] ReadyState show ?thesis by (simp add: handleEvents_Cons)
  qed
qed

lemma handleEvent_connected:
  "fmdom (apps (handleEvent e st)) = connected_after [e] (fmdom (apps st))"
  by (cases e) (auto simp: handleConnection_def handleAcknowledgment_def handleClose_def Let_def
      split: option.splits intro: fmdomI)

lemma handleEvents_connected:
  "fmdom (apps (handleEvents evs st)) = connected_after evs (fmdom (apps st))"
proof (induction evs arbitrary: st)
  case Nil
  then show ?case by (simp add: handleEvents_Nil)
next
  case (Cons e evs)
  have "connected_after (e # evs) P = connected_after evs (connected_after [e] P)" for P
    by (cases e) simp_all
  with Cons.IH[of "handleEvent e st"] show ?case
    by (simp add: handleEvents_Cons handleEvent_connected del: handleEvent.simps)
qed

lemma pollLoop_slots:
  obtains evs rest where "pollLoop phase remaining slots st = pollLoop phase remaining (evs # rest) st"
    and "\<And>m. delivered (Suc m) slots = evs @ delivered m rest"
proof (cases slots)
  case Nil
  then show ?thesis using that[of "[]" "[]"] by (simp add: pollLoop_Nil delivered_def)
next
  case (Cons evs rest)
  then show ?thesis using that[of evs rest] by (simp add: delivered_def)
qed

lemma pollLoop_first_quorum:
  assumes "100 * Suc k < remaining"
    and "quorum phase (handleEvents (delivered (Suc k) slots) st)"
    and "\<And>m. m < k \<Longrightarrow> \<not> quorum phase (handleEvents (delivered (Suc m) slots) st)"
  shows "pollLoop phase remaining slots st =
           (Inr (), elapse (100 * Suc k) (handleEvents (delivered (Suc k) slots) st))"
  using assms
proof (induction k arbitrary: remaining slots st)
  case 0
  obtain evs rest where sl: "pollLoop phase remaining slots st = pollLoop phase remaining (evs # rest) st"
    and d: "\<And>m. delivered (Suc m) slots = evs @ delivered m rest"
    using pollLoop_slots[of phase remaining slots st] by blast
  have d0: "delivered 0 rest = []" by (simp add: delivered_def)
  from 0 show ?case by (simp add: sl d d0 pollLoop_resolve)
next
  case (Suc k)
  obtain evs rest where sl: "pollLoop phase remaining slots st = pollLoop phase remaining (evs # rest) st"
    and d: "\<And>m. delivered (Suc m) slots = evs @ delivered m rest"
    using pollLoop_slots[of phase remaining slots st] by blast
  have d0: "delivered 0 rest = []" by (simp add: delivered_def)
  define st1 where "st1 = handleEvents evs st"
  have nq: "\<not> quorum phase st1" using Suc.prems(3)[of 0] by (simp add: d d0 st1_def)
  have gt: "100 < remaining" using Suc.prems(1) by simp
  have c: "pollLoop phase remaining slots st = pollLoop phase (remaining - 100) rest (elapse 100 st1)"
    using gt nq by (simp add: sl pollLoop_continue st1_def)
  have h: "handleEvents (delivered (Suc m) slots) st = handleEvents (delivered m rest) st1" for m
    by (simp add: d handleEvents_append st1_def)
  have 1: "100 * Suc k < remaining - 100" using Suc.prems(1) by simp
  have 2: "quorum phase (handleEvents (delivered (Suc k) rest) (elapse 100 st1))"
    using Suc.prems(2) by (simp add: h handleEvents_elapse quorum_elapse)
  have 3: "\<not> quorum phase (handleEvents (delivered (Suc m) rest) (elapse 100 st1))" if "m < k" for m
    using Suc.prems(3)[of "Suc m"] that by (simp add: h handleEvents_elapse quorum_elapse)
  from Suc.IH[OF 1 2 3] show ?case
    by (simp add: c h[of "Suc k"] handleEvents_elapse elapse_elapse)
qed

lemma pollLoop_no_quorum:
  assumes "\<And>m. 100 * Suc m < remaining \<Longrightarrow> \<not> quorum phase (handleEvents (delivered (Suc m) slots) st)"
  shows "pollLoop phase remaining slots st =
           (Inl (Timeout (ackCount phase (handleEvents (delivered (Suc ((remaining - 1) div 100)) slots) st))
                  (fcard (fmdom (apps (handleEvents (delivered (Suc ((remaining - 1) div 100)) slots) st))))
                  phase),
            elapse remaining (handleEvents (delivered (Suc ((remaining - 1) div 100)) slots) st))"
  using assms
proof (induction remaining arbitrary: slots st rule: less_induct)
  case (less remaining)
  obtain evs rest where sl: "pollLoop phase remaining slots st = pollLoop phase remaining (evs # rest) st"
    and d: "\<And>m. delivered (Suc m) slots = evs @ delivered m rest"
    using pollLoop_slots[of phase remaining slots st] by blast
  have d0: "delivered 0 rest = []" by (simp add: delivered_def)
  define st1 where "st1 = handleEvents evs st"
  show ?case
  proof (cases "remaining \<le> 100")
    case True
    then have "(remaining - 1) div 100 = 0" by simp
    then show ?thesis using True by (simp add: sl d d0 pollLoop_timeout)
  next
    case False
    then have gt: "100 < remaining" and lt: "remaining - 100 < remaining" by simp_all
    have nq: "\<not> quorum phase st1" using less.prems[of 0] gt by (simp add: d d0 st1_def)
    have c: "pollLoop phase remaining slots st = pollLoop phase (remaining - 100) rest (elapse 100 st1)"
      using gt nq by (simp add: sl pollLoop_continue st1_def)
    have h: "handleEvents (delivered (Suc m) slots) st = handleEvents (delivered m rest) st1" for m
      by (simp add: d handleEvents_append st1_def)
    have 3: "\<not> quorum phase (handleEvents (delivered (Suc m) rest) (elapse 100 st1))"
      if "100 * Suc m < remaining - 100" for m
    proof -
      from that have "100 * Suc (Suc m) < remaining" by simp
      from less.prems[OF this] show ?thesis by (simp add: h handleEvents_elapse quorum_elapse)
    qed
    define j where "j = (remaining - 100 - 1) div 100"
    have n: "(remaining - 1) div 100 = Suc j"
      using gt unfolding j_def by (simp add: div_diff)
    define s' where "s' = handleEvents (delivered (Suc j) rest) st1"
    have hs: "handleEvents (delivered (Suc (Suc j)) slots) st = s'"
      by (simp add: h s'_def)
    have e: "elapse (remaining - 100) (elapse 100 s') = elapse remaining s'"
      using gt by (simp add: elapse_elapse)
    have "pollLoop phase (remaining - 100) rest (elapse 100 st1) =
            (Inl (Timeout (ackCount phase (elapse 100 s')) (fcard (fmdom (apps (elapse 100 s')))) phase),
             elapse (remaining - 100) (elapse 100 s'))"
      using less.IH[OF lt 3] unfolding j_def[symmetric] handleEvents_elapse s'_def .
    then show ?thesis
      unfolding c n hs by (simp add: ackCount_elapse elapse_fields e)
  qed
qed

lemma quorum_sizes:
  "acknowledgments st phase = Some {||} \<Longrightarrow>
   quorum phase (handleEvents evs st) =
     (fcard (acknowledgers phase evs) = fcard (connected_after evs (fmdom (apps st))))"
  by (simp add: quorum_def handleEvents_acknowledgers handleEvents_connected)

lemma ackCount_sizes:
  "acknowledgments st phase = Some {||} \<Longrightarrow>
   ackCount phase (handleEvents evs st) = fcard (acknowledgers phase evs)"
  by (simp add: ackCount_def handleEvents_acknowledgers)

lemma delivered_single: "0 < m \<Longrightarrow> delivered m [evs] = evs"
  by (cases m) (simp_all add: delivered_def)

text \<open>
  C1, as stated, fails: the required count is not fixed when the wait begins. With three
  participants connected, the third disconnecting during the APPLY wait without having
  acknowledged and the other two acknowledging, the migration ends COMPLETED with two
  acknowledgments.
\<close>

theorem disconnect_during_apply_still_completes:
  "fcard (fmdom (apps three_apps)) = 3 \<and>
   map_option mig_status
     (currentMigration (snd (startMigration demo_migration healthy_db one_disconnects_during_apply three_apps))) =
     Some COMPLETED \<and>
   acknowledgments (snd (startMigration demo_migration healthy_db one_disconnects_during_apply three_apps)) APPLY =
     Some {|''app-2'', ''app-1''|} \<and>
   fmdom (apps (snd (startMigration demo_migration healthy_db one_disconnects_during_apply three_apps))) =
     {|''app-2'', ''app-1''|}"
  by (simp add: scenario_defs one_disconnects_during_apply_def run_defs poll_eval)

text \<open>
  C1, amended. The required count of a wait is not fixed when the wait begins. A poll
  runs after each 100 ms interval that ends before the timeout, and compares the number
  of connections that have acknowledged the phase since the wait began with the number
  of participants connected at that poll: those connected when the wait began, with
  every connection and every disconnection delivered since. The wait succeeds at the
  first poll that finds the two numbers equal, and then holds exactly those
  acknowledgments and those participants; when no poll finds them equal it is rejected
  with a timeout that reports the two numbers as they are when the timeout fires. So a
  participant that disconnects without acknowledging lowers the count the others have
  to reach, and the wait can succeed with fewer acknowledgments than there were
  participants when it began.
\<close>

theorem wait_compares_with_live_count:
  "(0 < n \<and> 100 * n < timeout \<and>
    fcard (acknowledgers phase (delivered n slots)) =
      fcard (connected_after (delivered n slots) (fmdom (apps st))) \<and>
    (\<forall>m. 0 < m \<and> m < n \<longrightarrow>
       fcard (acknowledgers phase (delivered m slots)) \<noteq>
         fcard (connected_after (delivered m slots) (fmdom (apps st)))) \<longrightarrow>
      fst (waitForAcknowledgments phase timeout slots st) = Inr () \<and>
      now (snd (waitForAcknowledgments phase timeout slots st)) = now st + 100 * n \<and>
      acknowledgments (snd (waitForAcknowledgments phase timeout slots st)) phase =
        Some (acknowledgers phase (delivered n slots)) \<and>
      fmdom (apps (snd (waitForAcknowledgments phase timeout slots st))) =
        connected_after (delivered n slots) (fmdom (apps st))) \<and>
   ((\<forall>m. 0 < m \<and> 100 * m < timeout \<longrightarrow>
       fcard (acknowledgers phase (delivered m slots)) \<noteq>
         fcard (connected_after (delivered m slots) (fmdom (apps st)))) \<longrightarrow>
      fst (waitForAcknowledgments phase timeout slots st) =
        Inl (Timeout (fcard (acknowledgers phase (delivered (Suc ((timeout - 1) div 100)) slots)))
               (fcard (connected_after (delivered (Suc ((timeout - 1) div 100)) slots) (fmdom (apps st))))
               phase) \<and>
      now (snd (waitForAcknowledgments phase timeout slots st)) = now st + timeout)"
proof -
  define st0 where "st0 = st\<lparr>acknowledgments := (acknowledgments st)(phase \<mapsto> {||})\<rparr>"
  have a0: "acknowledgments st0 phase = Some {||}" and d0: "fmdom (apps st0) = fmdom (apps st)"
    and n0: "now st0 = now st"
    by (simp_all add: st0_def)
  have w: "waitForAcknowledgments phase timeout slots st = pollLoop phase timeout slots st0"
    by (simp add: waitForAcknowledgments_def st0_def)
  note q = quorum_sizes[OF a0, unfolded d0]
  have first: "fst (pollLoop phase timeout slots st0) = Inr () \<and>
      now (snd (pollLoop phase timeout slots st0)) = now st + 100 * n \<and>
      acknowledgments (snd (pollLoop phase timeout slots st0)) phase =
        Some (acknowledgers phase (delivered n slots)) \<and>
      fmdom (apps (snd (pollLoop phase timeout slots st0))) =
        connected_after (delivered n slots) (fmdom (apps st))"
    if n: "0 < n" "100 * n < timeout"
      and eq: "fcard (acknowledgers phase (delivered n slots)) =
        fcard (connected_after (delivered n slots) (fmdom (apps st)))"
      and ne: "\<forall>m. 0 < m \<and> m < n \<longrightarrow>
        fcard (acknowledgers phase (delivered m slots)) \<noteq>
          fcard (connected_after (delivered m slots) (fmdom (apps st)))"
  proof -
    from n obtain k where k: "n = Suc k" by (cases n) simp_all
    have 1: "100 * Suc k < timeout" using n k by simp
    have 2: "quorum phase (handleEvents (delivered (Suc k) slots) st0)"
      using eq by (simp add: q k)
    have 3: "\<not> quorum phase (handleEvents (delivered (Suc m) slots) st0)" if "m < k" for m
      using ne that by (simp add: q k)
    from pollLoop_first_quorum[OF 1 2 3]
    have "pollLoop phase timeout slots st0 =
            (Inr (), elapse (100 * n) (handleEvents (delivered n slots) st0))"
      by (simp add: k)
    then show ?thesis
      using handleEvents_frame[of "delivered n slots" st0]
      by (simp add: elapse_fields handleEvents_acknowledgers[OF a0] handleEvents_connected d0 n0)
  qed
  have never: "fst (pollLoop phase timeout slots st0) =
        Inl (Timeout (fcard (acknowledgers phase (delivered (Suc ((timeout - 1) div 100)) slots)))
               (fcard (connected_after (delivered (Suc ((timeout - 1) div 100)) slots) (fmdom (apps st))))
               phase) \<and>
      now (snd (pollLoop phase timeout slots st0)) = now st + timeout"
    if ne: "\<forall>m. 0 < m \<and> 100 * m < timeout \<longrightarrow>
        fcard (acknowledgers phase (delivered m slots)) \<noteq>
          fcard (connected_after (delivered m slots) (fmdom (apps st)))"
  proof -
    have 3: "\<not> quorum phase (handleEvents (delivered (Suc m) slots) st0)" if "100 * Suc m < timeout" for m
      using ne that by (simp add: q)
    from pollLoop_no_quorum[OF 3]
    show ?thesis
      using handleEvents_frame[of "delivered (Suc ((timeout - 1) div 100)) slots" st0]
      by (simp add: elapse_fields ackCount_sizes[OF a0] handleEvents_connected d0 n0)
  qed
  from first never show ?thesis unfolding w by blast
qed

theorem wait_compares_with_live_count_witness:
  "fcard (fmdom (apps three_apps)) = 3 \<and>
   fst (waitForAcknowledgments APPLY 30000 (apply_slots one_disconnects_during_apply) three_apps) = Inr () \<and>
   now (snd (waitForAcknowledgments APPLY 30000 (apply_slots one_disconnects_during_apply) three_apps)) =
     now three_apps + 200 \<and>
   acknowledgments (snd (waitForAcknowledgments APPLY 30000 (apply_slots one_disconnects_during_apply)
     three_apps)) APPLY = Some {|''app-1'', ''app-2''|} \<and>
   fmdom (apps (snd (waitForAcknowledgments APPLY 30000 (apply_slots one_disconnects_during_apply)
     three_apps))) = {|''app-1'', ''app-2''|} \<and>
   fst (waitForAcknowledgments APPLY 30000
          [[Close ''app-3'', acknowledge ''app-1'' APPLY, acknowledge ''app-2'' APPLY, Close ''app-2'']]
          three_apps) = Inl (Timeout 2 1 APPLY)"
proof -
  have c: "fcard (fmdom (apps three_apps)) = 3"
    by (simp add: three_apps_dom fcard_finsert_if)
  have r3: "fmdom (apps three_apps) |-| {|''app-3''|} = {|''app-1'', ''app-2''|}"
    by (auto simp: three_apps_dom)
  have r2: "{|''app-1'', ''app-2''|} |-| {|''app-2''|} = {|''app-1''|}"
    by auto
  have d1: "delivered (Suc 0) (apply_slots one_disconnects_during_apply) = [Close ''app-3'']"
    and d2: "delivered 2 (apply_slots one_disconnects_during_apply) =
      [Close ''app-3'', acknowledge ''app-1'' APPLY, acknowledge ''app-2'' APPLY]"
    by (simp_all add: delivered_def one_disconnects_during_apply_def numeral_2_eq_2)
  have h1: "\<forall>m. 0 < m \<and> m < 2 \<longrightarrow>
       fcard (acknowledgers APPLY (delivered m (apply_slots one_disconnects_during_apply))) \<noteq>
         fcard (connected_after (delivered m (apply_slots one_disconnects_during_apply))
                  (fmdom (apps three_apps)))"
  proof (intro allI impI)
    fix m :: nat
    assume "0 < m \<and> m < 2"
    then have "m = 1" by simp
    then show "fcard (acknowledgers APPLY (delivered m (apply_slots one_disconnects_during_apply))) \<noteq>
         fcard (connected_after (delivered m (apply_slots one_disconnects_during_apply))
                  (fmdom (apps three_apps)))"
      by (simp add: d1 r3 fcard_finsert_if)
  qed
  define late where "late = [Close ''app-3'', acknowledge ''app-1'' APPLY, acknowledge ''app-2'' APPLY,
    Close ''app-2'']"
  have h2: "\<forall>m. 0 < m \<and> 100 * m < 30000 \<longrightarrow>
       fcard (acknowledgers APPLY (delivered m [late])) \<noteq>
         fcard (connected_after (delivered m [late]) (fmdom (apps three_apps)))"
    by (simp add: delivered_single late_def acknowledge_def r3 r2 fcard_finsert_if)
  have d3: "delivered (Suc ((30000 - 1) div 100)) [late] = late"
    by (simp add: delivered_single)
  from wait_compares_with_live_count[of 2 30000 APPLY "apply_slots one_disconnects_during_apply" three_apps]
    wait_compares_with_live_count[of 0 30000 APPLY "[late]" three_apps]
    h1 h2 c
  show ?thesis
    unfolding d3 by (simp add: d2 late_def acknowledge_def r3 r2 fcard_finsert_if)
qed

text \<open>
  C2, as stated, fails: a participant that connects during the APPLY wait is counted.
  With three participants connected, a fourth connecting in the first interval of the
  APPLY wait and the three acknowledging APPLY, the wait times out with 3 of 4 and the
  migration ends FAILED.
\<close>

theorem late_joiner_stalls_apply:
  "map_option mig_status
     (currentMigration (snd (startMigration demo_migration healthy_db late_joiner three_apps))) =
     Some FAILED \<and>
   acknowledgments (snd (startMigration demo_migration healthy_db late_joiner three_apps)) APPLY =
     Some {|''app-3'', ''app-2'', ''app-1''|} \<and>
   RollingBack (Caught (Timeout 3 4 APPLY)) \<in>
     set (console (snd (startMigration demo_migration healthy_db late_joiner three_apps)))"
  by (simp add: scenario_defs late_joiner_def run_defs poll_eval)

text \<open>
  C2, amended. A participant that connects during a wait raises the required count by
  one. When every participant connected at the start of the wait acknowledges, a new
  participant connects and nothing else happens, no poll finds the sizes equal and the
  wait is rejected at its timeout, with the count of the participants that were there at
  the start against a total one larger.
\<close>

theorem late_joiner_raises_required_count:
  assumes n: "d |\<notin>| fmdom (apps st)" and d: "fmdom (apps st) = fset_of_list as"
  shows "waitForAcknowledgments phase timeout [Connection d # map (\<lambda>a. acknowledge a phase) as] st =
           (Inl (Timeout (fcard (fmdom (apps st))) (Suc (fcard (fmdom (apps st)))) phase),
            elapse timeout (st\<lparr>apps := fmupd d \<lparr>readyState = OPEN, sent = [WELCOME d]\<rparr> (apps st),
                                  acknowledgments := (acknowledgments st)(phase \<mapsto> fmdom (apps st))\<rparr>))"
proof -
  define st0 where "st0 = st\<lparr>acknowledgments := (acknowledgments st)(phase \<mapsto> {||})\<rparr>"
  define st1 where "st1 = handleConnection d st0"
  have a1: "acknowledgments st1 phase = Some {||}" by (simp add: st1_def st0_def handleConnection_def)
  define st2 where "st2 = st\<lparr>apps := fmupd d \<lparr>readyState = OPEN, sent = [WELCOME d]\<rparr> (apps st),
                                acknowledgments := (acknowledgments st)(phase \<mapsto> fmdom (apps st))\<rparr>"
  have h: "handleEvents (Connection d # map (\<lambda>a. acknowledge a phase) as) st0 = st2"
    using handleEvents_acknowledge[OF a1, of as]
    by (simp add: handleEvents_Cons st1_def[symmetric]) (simp add: st1_def st0_def st2_def handleConnection_def d)
  have k: "ackCount phase st2 = fcard (fmdom (apps st))" by (simp add: ackCount_def st2_def)
  have m: "fcard (fmdom (apps st2)) = Suc (fcard (fmdom (apps st)))"
    using n by (simp add: st2_def fcard_finsert_disjoint)
  have q: "\<not> quorum phase st2" using m by (simp add: quorum_def st2_def)
  show ?thesis
  proof (cases "timeout \<le> 100")
    case True
    then show ?thesis
      unfolding waitForAcknowledgments_def st0_def[symmetric] st2_def[symmetric]
      by (simp add: pollLoop_timeout h k m)
  next
    case False
    then have t: "100 < timeout" by simp
    have q': "\<not> quorum phase (elapse 100 st2)" using q by (simp add: quorum_elapse)
    have e: "elapse (timeout - 100) (elapse 100 st2) = elapse timeout st2"
      using t by (simp add: elapse_elapse)
    show ?thesis
      unfolding waitForAcknowledgments_def st0_def[symmetric] st2_def[symmetric]
      using t q
      by (simp add: pollLoop_continue h pollLoop_idle[OF q'] ackCount_elapse elapse_fields k m e)
  qed
qed

theorem late_joiner_raises_required_count_witness:
  "''app-4'' |\<notin>| fmdom (apps three_apps) \<and>
   fmdom (apps three_apps) = fset_of_list [''app-1'', ''app-2'', ''app-3''] \<and>
   fst (waitForAcknowledgments APPLY 30000
          [Connection ''app-4'' # map (\<lambda>a. acknowledge a APPLY) [''app-1'', ''app-2'', ''app-3'']] three_apps) =
     Inl (Timeout 3 4 APPLY)"
proof -
  have n: "''app-4'' |\<notin>| fmdom (apps three_apps)" by (simp add: three_apps_dom)
  have d: "fmdom (apps three_apps) = fset_of_list [''app-1'', ''app-2'', ''app-3'']"
    by (simp add: three_apps_dom)
  have k: "fcard (fmdom (apps three_apps)) = 3" by (simp add: three_apps_dom fcard_finsert_if)
  from late_joiner_raises_required_count[OF n d, of APPLY 30000] n d
  show ?thesis by (simp add: k fcard_finsert_if)
qed

end
